theory Spec2Isabelle
  imports Main "HOL-Library.Word" "HOL-Library.Code_Target_Nat"
begin

unbundle bit_operations_syntax

section \<open>Machine types and the program state\<close>

text \<open>
  The C sources \<^verbatim>\<open>ustring.c\<close> and \<^verbatim>\<open>reduction.c\<close> work on three kinds of storage:
  zero-terminated arrays of \<^verbatim>\<open>uint32_t\<close> code points, heap-allocated \<^verbatim>\<open>reduction\<close>
  structs, and the bytes written to standard output. Fixed-width integers are words;
  \<^verbatim>\<open>char\<close>, \<^verbatim>\<open>int8_t\<close> and \<^verbatim>\<open>uint8_t\<close> are all the 8-bit pattern \<open>u8\<close>
  (\<^verbatim>\<open>putchar\<close> writes its argument converted to \<^verbatim>\<open>unsigned char\<close>, so only the
  pattern matters); \<^verbatim>\<open>int\<close> is a 32-bit and \<^verbatim>\<open>int64_t\<close> a 64-bit pattern read with
  \<open>sint\<close>.
\<close>

type_synonym u8 = "8 word"
type_synonym u32 = "32 word"
type_synonym u64 = "64 word"
type_synonym addr = nat

text \<open>\<^verbatim>\<open>typedef struct { uint64_t head_idx; uint64_t length; } reduction;\<close>
  (the field \<^verbatim>\<open>length\<close> is \<open>length_r\<close> here, as \<open>length\<close> is the list function).\<close>

record reduction =
  head_idx :: u64
  length_r :: u64

text \<open>An \<^verbatim>\<open>obj\<close> as this code uses it: \<^verbatim>\<open>head->data\<close> is handed to \<^verbatim>\<open>ustring_len\<close>,
  so for a symbol it points to a code-point string. The type tag of \<^verbatim>\<open>obj\<close> is never
  inspected by the functions embedded here.\<close>

record obj =
  data :: addr

text \<open>
  The state. \<open>cells\<close> holds the \<^verbatim>\<open>uint32_t\<close> objects, addressed by cell (a cell is four
  bytes); \<open>None\<close> is a cell that holds no value (it was never written). \<open>brk\<close>
  is the first cell \<^verbatim>\<open>malloc\<close> has not handed out. \<open>reds\<close> holds the \<^verbatim>\<open>reduction\<close>
  structs and \<open>rbrk\<close> is the next free slot for one. \<open>symbols\<close> is the process-wide
  symbol table of the metaparser, \<open>stdout\<close> the bytes written so far.
\<close>

record state =
  cells :: "addr \<Rightarrow> u32 option"
  brk :: addr
  reds :: "addr \<Rightarrow> reduction option"
  rbrk :: addr
  symbols :: "u64 \<Rightarrow> obj option"
  stdout :: "u8 list"

text \<open>Byte addresses are 64 bits wide and a cell is four bytes, so no cell has an
  address of \<open>2 ^ 62\<close> or more.\<close>

definition addr_limit :: nat where
  "addr_limit = 2 ^ 62"

text \<open>Reading \<^verbatim>\<open>p[0]\<close> and writing \<^verbatim>\<open>p[0] = v\<close> through a \<^verbatim>\<open>uint32_t*\<close>. An access
  outside the allocated cells, or a read of a cell never written, is undefined
  behaviour in C: the model returns \<open>None\<close>.\<close>

definition read32 :: "state \<Rightarrow> addr \<Rightarrow> u32 option" where
  "read32 s a = (if a < brk s \<and> a < addr_limit then cells s a else None)"

definition write32 :: "state \<Rightarrow> addr \<Rightarrow> u32 \<Rightarrow> state option" where
  "write32 s a v =
     (if a < brk s \<and> a < addr_limit then Some (s\<lparr>cells := (cells s)(a \<mapsto> v)\<rparr>) else None)"

text \<open>\<^verbatim>\<open>malloc(n * sizeof(uint32_t))\<close>: a block of \<open>n\<close> cells that no earlier pointer
  reaches, its contents not yet written. The sources never test the result of
  \<^verbatim>\<open>malloc\<close>; a block that does not fit below \<open>addr_limit\<close> makes the first access
  to it fail.\<close>

definition malloc32 :: "nat \<Rightarrow> state \<Rightarrow> addr \<times> state" where
  "malloc32 n s =
     (brk s, s\<lparr>cells := (\<lambda>a. if a < brk s then cells s a else None), brk := brk s + n\<rparr>)"

section \<open>Standard output\<close>

definition putchar :: "u8 \<Rightarrow> u8 list \<Rightarrow> u8 list" where
  "putchar b out = out @ [b]"

text \<open>\<^verbatim>\<open>printf\<close> with its format already expanded to the bytes \<open>msg\<close>.\<close>

definition printf :: "u8 list \<Rightarrow> u8 list \<Rightarrow> u8 list" where
  "printf msg out = out @ msg"

text \<open>The bytes of an ASCII string literal of the source.\<close>

definition ascii :: "string \<Rightarrow> u8 list" where
  "ascii cs = map of_char cs"

text \<open>The conversions \<^verbatim>\<open>%u\<close> and \<^verbatim>\<open>%PRIu64\<close> of \<^verbatim>\<open>printf\<close>: the decimal digits of an
  unsigned number, most significant first, no padding.\<close>

fun fmt_u :: "nat \<Rightarrow> u8 list" where
  "fmt_u n =
     (if n < 10 then [0x30 + of_nat n]
      else fmt_u (n div 10) @ [0x30 + of_nat (n mod 10)])"

declare fmt_u.simps [simp del]

section \<open>ustring.c\<close>

definition AUGMENT_CHAR :: u32 where
  "AUGMENT_CHAR = 0x200000"

subsection \<open>Length, comparison, clone\<close>

text \<open>\<^verbatim>\<open>size_t length = 0; while (string[length]) { length++; } return length;\<close>
  The counter is a \<open>nat\<close>: it stays below \<open>addr_limit\<close>, so the \<^verbatim>\<open>size_t\<close> never wraps.\<close>

function ustring_len_loop :: "state \<Rightarrow> addr \<Rightarrow> nat \<Rightarrow> nat option" where
  "ustring_len_loop s string len =
     (case read32 s (string + len) of
        None \<Rightarrow> None
      | Some c \<Rightarrow> if c \<noteq> 0 then ustring_len_loop s string (len + 1) else Some len)"
  by pat_completeness auto
termination
  by (relation "measure (\<lambda>(s, string, len). brk s - (string + len))")
     (auto simp: read32_def split: if_splits)

declare ustring_len_loop.simps [simp del]

definition ustring_len :: "state \<Rightarrow> addr \<Rightarrow> nat option" where
  "ustring_len s string = ustring_len_loop s string 0"

text \<open>\<^verbatim>\<open>do { l = *left++; r = *right++; if (l == 0) break; } while (l == r); return l - r;\<close>
  The difference \<^verbatim>\<open>l - r\<close> is taken in \<^verbatim>\<open>uint32_t\<close> and then widened to the \<^verbatim>\<open>int64_t\<close>
  result.\<close>

function ustring_cmp :: "state \<Rightarrow> addr \<Rightarrow> addr \<Rightarrow> u64 option" where
  "ustring_cmp s left right =
     (case read32 s left of
        None \<Rightarrow> None
      | Some l \<Rightarrow>
          (case read32 s right of
             None \<Rightarrow> None
           | Some r \<Rightarrow>
               if l = 0 then Some (ucast (l - r))
               else if l = r then ustring_cmp s (left + 1) (right + 1)
               else Some (ucast (l - r))))"
  by pat_completeness auto
termination
  by (relation "measure (\<lambda>(s, left, right). brk s - left)")
     (auto simp: read32_def split: if_splits)

declare ustring_cmp.simps [simp del]

lemma brk_write32: "write32 s a v = Some s' \<Longrightarrow> brk s' = brk s"
  by (auto simp: write32_def split: if_splits)

text \<open>\<^verbatim>\<open>while ((*ptr++ = *string++));\<close>\<close>

function clone_loop :: "state \<Rightarrow> addr \<Rightarrow> addr \<Rightarrow> state option" where
  "clone_loop s ptr string =
     (case read32 s string of
        None \<Rightarrow> None
      | Some c \<Rightarrow>
          (case write32 s ptr c of
             None \<Rightarrow> None
           | Some s' \<Rightarrow> if c \<noteq> 0 then clone_loop s' (ptr + 1) (string + 1) else Some s'))"
  by pat_completeness auto
termination
  by (relation "measure (\<lambda>(s, ptr, string). brk s - string)")
     (auto simp: read32_def brk_write32 split: if_splits)

declare clone_loop.simps [simp del]

text \<open>\<^verbatim>\<open>ustring_clone\<close>: the length, a block of \<open>length + 1\<close> cells, the copy loop; the
  result is the pointer to the block.\<close>

definition ustring_clone :: "state \<Rightarrow> addr \<Rightarrow> (addr \<times> state) option" where
  "ustring_clone s string =
     (case ustring_len s string of
        None \<Rightarrow> None
      | Some len \<Rightarrow>
          (let (copy, s1) = malloc32 (len + 1) s
           in case clone_loop s1 copy string of
                None \<Rightarrow> None
              | Some s2 \<Rightarrow> Some (copy, s2)))"

subsection \<open>Numeric literals\<close>

text \<open>
  \<^verbatim>\<open>for (int64_t i = len - 1; i >= 0; i--) { val += base_digit_to_value(str[i]) * pow; pow *= base; }\<close>
  The digit function takes a \<^verbatim>\<open>char\<close>, so \<^verbatim>\<open>str[i]\<close> is narrowed to 8 bits on the call.
\<close>

function parse_base_loop ::
  "state \<Rightarrow> addr \<Rightarrow> u64 \<Rightarrow> (u8 \<Rightarrow> u64) \<Rightarrow> int \<Rightarrow> u64 \<Rightarrow> u64 \<Rightarrow> u64 option" where
  "parse_base_loop s str base base_digit_to_value i pow val =
     (if 0 \<le> i then
        (case read32 s (str + nat i) of
           None \<Rightarrow> None
         | Some c \<Rightarrow>
             parse_base_loop s str base base_digit_to_value (i - 1) (pow * base)
               (val + base_digit_to_value (ucast c) * pow))
      else Some val)"
  by pat_completeness auto
termination
  by (relation "measure (\<lambda>(s, str, base, f, i, pow, val). nat (i + 1))") auto

declare parse_base_loop.simps [simp del]

text \<open>The loop starts at \<^verbatim>\<open>(int64_t)(len - 1)\<close>, with \<^verbatim>\<open>len - 1\<close> taken in \<^verbatim>\<open>size_t\<close>.\<close>

definition ustring_parse_base :: "state \<Rightarrow> addr \<Rightarrow> u64 \<Rightarrow> (u8 \<Rightarrow> u64) \<Rightarrow> u64 option" where
  "ustring_parse_base s str base base_digit_to_value =
     (case ustring_len s str of
        None \<Rightarrow> None
      | Some len \<Rightarrow>
          parse_base_loop s str base base_digit_to_value
            (sint (word_of_nat len - 1 :: u64)) 1 0)"

text \<open>\<^verbatim>\<open>hex_digit_to_value\<close> and \<^verbatim>\<open>dec_digit_to_value\<close> are defined in \<^verbatim>\<open>utilities.c\<close>;
  the two parsers take them as a parameter.\<close>

definition ustring_parse_hex :: "(u8 \<Rightarrow> u64) \<Rightarrow> state \<Rightarrow> addr \<Rightarrow> u64 option" where
  "ustring_parse_hex hex_digit_to_value s str = ustring_parse_base s str 16 hex_digit_to_value"

definition ustring_parse_dec :: "(u8 \<Rightarrow> u64) \<Rightarrow> state \<Rightarrow> addr \<Rightarrow> u64 option" where
  "ustring_parse_dec dec_digit_to_value s str = ustring_parse_base s str 10 dec_digit_to_value"

subsection \<open>UTF-8 output and input\<close>

text \<open>\<^verbatim>\<open>put_unicode\<close>: the bytes are computed in \<^verbatim>\<open>uint32_t\<close>, narrowed to \<^verbatim>\<open>int8_t\<close> and
  written leading byte first. In C, \<^verbatim>\<open>c >> 6 & 0xDF\<close> is \<^verbatim>\<open>(c >> 6) & 0xDF\<close>.\<close>

definition put_unicode :: "u32 \<Rightarrow> u8 list \<Rightarrow> u8 list" where
  "put_unicode c out =
     (if c < 0x80 then
        (let b0 = (ucast (c AND 0x7F) :: u8)
         in putchar b0 out)
      else if c < 0x800 then
        (let b0 = (ucast ((c AND 0x3F) OR 0x80) :: u8);
             b1 = (ucast ((drop_bit 6 c AND 0xDF) OR 0xC0) :: u8)
         in putchar b0 (putchar b1 out))
      else if c < 0x10000 then
        (let b0 = (ucast ((c AND 0x3F) OR 0x80) :: u8);
             b1 = (ucast ((drop_bit 6 c AND 0x3F) OR 0x80) :: u8);
             b2 = (ucast ((drop_bit 12 c AND 0x0F) OR 0xE0) :: u8)
         in putchar b0 (putchar b1 (putchar b2 out)))
      else if c \<le> 0x001FFFFF then
        (let b0 = (ucast ((c AND 0x3F) OR 0x80) :: u8);
             b1 = (ucast ((drop_bit 6 c AND 0x3F) OR 0x80) :: u8);
             b2 = (ucast ((drop_bit 12 c AND 0x3F) OR 0x80) :: u8);
             b3 = (ucast ((drop_bit 18 c AND 0x07) OR 0xF0) :: u8)
         in putchar b0 (putchar b1 (putchar b2 (putchar b3 out))))
      else
        printf (ascii ''ERROR: invalid unicode codepoint '' @ [0x22] @ fmt_u (unat c)
                @ [0x22, 0x0A]) out)"

text \<open>\<^verbatim>\<open>eat_utf8(char** str_ptr)\<close>. The first argument is the bytes readable from
  \<^verbatim>\<open>*str_ptr\<close> on; the result carries the bytes readable from the advanced pointer, so
  the pointer moved by the difference of the two lengths. A read past the last byte is
  \<open>None\<close>. The second argument is standard output, where the error message goes.\<close>

definition ill_formed :: "u8 list \<Rightarrow> u8 list \<Rightarrow> (u32 \<times> u8 list \<times> u8 list) option" where
  "ill_formed str out =
     Some (0, str,
       printf (ascii ''ERROR: eat_utf8() found ill-formed utf-8 character'' @ [0x0A]) out)"

definition eat_utf8 :: "u8 list \<Rightarrow> u8 list \<Rightarrow> (u32 \<times> u8 list \<times> u8 list) option" where
  "eat_utf8 str out =
     (case str of
        [] \<Rightarrow> None
      | b0 # str1 \<Rightarrow>
          if b0 = 0 then Some (0, str1, out)
          else if drop_bit 7 b0 = 0x00 then Some (ucast b0, str1, out)
          else if drop_bit 5 b0 = 0x06 then
            (case str1 of
               [] \<Rightarrow> None
             | b1 # str2 \<Rightarrow>
                 if drop_bit 6 b1 = 0x02
                 then Some (push_bit 6 (ucast (b0 AND 0x1F)) OR ucast (b1 AND 0x3F), str2, out)
                 else ill_formed str2 out)
          else if drop_bit 4 b0 = 0x0E then
            (case str1 of
               [] \<Rightarrow> None
             | b1 # str2 \<Rightarrow>
                 if drop_bit 6 b1 = 0x02 then
                   (case str2 of
                      [] \<Rightarrow> None
                    | b2 # str3 \<Rightarrow>
                        if drop_bit 6 b2 = 0x02
                        then Some (push_bit 12 (ucast (b0 AND 0x0F))
                                   OR push_bit 6 (ucast (b1 AND 0x3F))
                                   OR ucast (b2 AND 0x3F), str3, out)
                        else ill_formed str3 out)
                 else ill_formed str2 out)
          else if drop_bit 3 b0 = 0x1E then
            (case str1 of
               [] \<Rightarrow> None
             | b1 # str2 \<Rightarrow>
                 if drop_bit 6 b1 = 0x02 then
                   (case str2 of
                      [] \<Rightarrow> None
                    | b2 # str3 \<Rightarrow>
                        if drop_bit 6 b2 = 0x02 then
                          (case str3 of
                             [] \<Rightarrow> None
                           | b3 # str4 \<Rightarrow>
                               if drop_bit 6 b3 = 0x02
                               then Some (push_bit 18 (ucast (b0 AND 0x07))
                                          OR push_bit 12 (ucast (b1 AND 0x3F))
                                          OR push_bit 6 (ucast (b2 AND 0x3F))
                                          OR ucast (b3 AND 0x3F), str4, out)
                               else ill_formed str4 out)
                        else ill_formed str3 out)
                 else ill_formed str2 out)
          else ill_formed str1 out)"

lemma eat_utf8_shorter: "eat_utf8 str out = Some (c, str', out') \<Longrightarrow> length str' < length str"
  by (auto simp: eat_utf8_def ill_formed_def split: list.splits if_splits)

text \<open>\<^verbatim>\<open>size_t i = 0; while (eat_utf8(&str)) { i++; }; return i;\<close>\<close>

function utf8_length_loop :: "u8 list \<Rightarrow> nat \<Rightarrow> u8 list \<Rightarrow> (nat \<times> u8 list) option" where
  "utf8_length_loop str i out =
     (case eat_utf8 str out of
        None \<Rightarrow> None
      | Some (c, str', out') \<Rightarrow>
          if c \<noteq> 0 then utf8_length_loop str' (i + 1) out' else Some (i, out'))"
  by pat_completeness auto
termination
  by (relation "measure (\<lambda>(str, i, out). length str)") (auto simp: eat_utf8_shorter)

declare utf8_length_loop.simps [simp del]

definition utf8_length :: "u8 list \<Rightarrow> u8 list \<Rightarrow> (nat \<times> u8 list) option" where
  "utf8_length str out = utf8_length_loop str 0 out"

text \<open>\<^verbatim>\<open>unicode_str\<close>: a marker for the null character and for the augment character.\<close>

definition unicode_str :: "u32 \<Rightarrow> u8 list \<Rightarrow> u8 list" where
  "unicode_str c out =
     (if c = 0 then put_unicode 0x2300 out
      else if c = AUGMENT_CHAR then put_unicode 0x1F596 out
      else put_unicode c out)"

text \<open>\<^verbatim>\<open>uint32_t c; while ((c = *s++)) put_unicode(c);\<close>\<close>

function ustring_str :: "addr \<Rightarrow> state \<Rightarrow> state option" where
  "ustring_str p s =
     (case read32 s p of
        None \<Rightarrow> None
      | Some c \<Rightarrow>
          if c \<noteq> 0 then ustring_str (p + 1) (s\<lparr>stdout := put_unicode c (stdout s)\<rparr>)
          else Some s)"
  by pat_completeness auto
termination
  by (relation "measure (\<lambda>(p, s). brk s - p)") (auto simp: read32_def split: if_splits)

declare ustring_str.simps [simp del]

subsection \<open>Escape characters\<close>

definition escape_to_unicode :: "u32 \<Rightarrow> u32" where
  "escape_to_unicode c =
     (if c = of_char CHR ''a'' then 0x7
      else if c = of_char CHR ''b'' then 0x8
      else if c = of_char CHR ''t'' then 0x9
      else if c = of_char CHR ''n'' then 0xA
      else if c = of_char CHR ''v'' then 0xB
      else if c = of_char CHR ''f'' then 0xC
      else if c = of_char CHR ''r'' then 0xD
      else c)"

section \<open>reduction.c\<close>

text \<open>Every operation takes the state and returns it with its result, so that what an
  operation does to the stored records can be stated. A pointer that reaches no record
  makes the operation fail.\<close>

text \<open>\<^verbatim>\<open>new_reduction\<close>: a fresh record holding the two arguments.\<close>

definition new_reduction :: "u64 \<Rightarrow> u64 \<Rightarrow> state \<Rightarrow> addr \<times> state" where
  "new_reduction head_idx' length' s =
     (rbrk s,
      s\<lparr>reds := (reds s)(rbrk s \<mapsto> \<lparr>head_idx = head_idx', length_r = length'\<rparr>),
        rbrk := rbrk s + 1\<rparr>)"

text \<open>Modelled from the spec: \<^verbatim>\<open>metaparser_get_symbol\<close> is defined in \<^verbatim>\<open>metaparser.c\<close>,
  which is not among the sources. The spec: the symbol table provides
  \<open>get_symbol(idx) \<rightarrow> symbol\<close>, where a symbol has a code-point-string name.\<close>

definition metaparser_get_symbol :: "u64 \<Rightarrow> state \<Rightarrow> obj option" where
  "metaparser_get_symbol idx s = symbols s idx"

text \<open>Modelled from the spec: \<^verbatim>\<open>obj_str\<close> is defined in \<^verbatim>\<open>object.c\<close>, which is not among
  the sources. The spec: the reduction renders as \<open>R(HeadName, length)\<close> using the
  symbol-name lookup; so for a symbol \<^verbatim>\<open>obj_str\<close> prints its name, the code-point string
  at \<^verbatim>\<open>data\<close>, as \<^verbatim>\<open>ustring_str\<close> prints a code-point string.\<close>

definition obj_str :: "obj \<Rightarrow> state \<Rightarrow> state option" where
  "obj_str head s = ustring_str (data head) s"

definition reduction_str :: "addr \<Rightarrow> state \<Rightarrow> (unit \<times> state) option" where
  "reduction_str r s =
     (let s1 = s\<lparr>stdout := printf (ascii ''R('') (stdout s)\<rparr>
      in case reds s1 r of
           None \<Rightarrow> None
         | Some r1 \<Rightarrow>
             (case metaparser_get_symbol (head_idx r1) s1 of
                None \<Rightarrow> None
              | Some head \<Rightarrow>
                  (case obj_str head s1 of
                     None \<Rightarrow> None
                   | Some s2 \<Rightarrow>
                       (case reds s2 r of
                          None \<Rightarrow> None
                        | Some r2 \<Rightarrow>
                            Some ((), s2\<lparr>stdout :=
                              printf (ascii '', '' @ fmt_u (unat (length_r r2)) @ ascii '')'')
                                (stdout s2)\<rparr>)))))"

text \<open>\<^verbatim>\<open>reduction_strlen\<close>. \<^verbatim>\<open>width\<close> is an \<^verbatim>\<open>int\<close>: the \<^verbatim>\<open>size_t\<close> length is narrowed
  to 32 bits when it is added. \<^verbatim>\<open>snprintf("", 0, ...)\<close> writes nothing and returns the
  number of characters the expanded format has.\<close>

definition reduction_strlen :: "addr \<Rightarrow> state \<Rightarrow> (u32 \<times> state) option" where
  "reduction_strlen r s =
     (let width0 = (0 :: u32)
      in case reds s r of
           None \<Rightarrow> None
         | Some r1 \<Rightarrow>
             (case metaparser_get_symbol (head_idx r1) s of
                None \<Rightarrow> None
              | Some head \<Rightarrow>
                  (case ustring_len s (data head) of
                     None \<Rightarrow> None
                   | Some len \<Rightarrow>
                       (let width1 = width0 + word_of_nat len;
                            width2 = width1 + word_of_nat
                              (length (ascii ''R(, '' @ fmt_u (unat (length_r r1)) @ ascii '')''))
                        in Some (width2, s)))))"

definition reduction_repr :: "addr \<Rightarrow> state \<Rightarrow> (unit \<times> state) option" where
  "reduction_repr r s =
     (case reds s r of
        None \<Rightarrow> None
      | Some r1 \<Rightarrow>
          Some ((), s\<lparr>stdout :=
            printf (ascii ''reduction{head_idx: '' @ fmt_u (unat (head_idx r1))
                    @ ascii '', length: '' @ fmt_u (unat (length_r r1)) @ ascii ''}'')
              (stdout s)\<rparr>))"

definition reduction_equals :: "addr \<Rightarrow> addr \<Rightarrow> state \<Rightarrow> (bool \<times> state) option" where
  "reduction_equals left right s =
     (case reds s left of
        None \<Rightarrow> None
      | Some l \<Rightarrow>
          (case reds s right of
             None \<Rightarrow> None
           | Some r \<Rightarrow> Some (length_r l = length_r r \<and> head_idx l = head_idx r, s)))"

text \<open>\<^verbatim>\<open>hash_uint_sequence\<close> is defined in \<^verbatim>\<open>utilities.c\<close>; \<^verbatim>\<open>reduction_hash\<close> takes it
  as a parameter and calls it on the sequence \<^verbatim>\<open>{r->length, r->head_idx}\<close> and its
  number of elements.\<close>

definition reduction_hash ::
  "(u64 list \<Rightarrow> nat \<Rightarrow> u64) \<Rightarrow> addr \<Rightarrow> state \<Rightarrow> (u64 \<times> state) option" where
  "reduction_hash hash_uint_sequence r s =
     (case reds s r of
        None \<Rightarrow> None
      | Some r1 \<Rightarrow>
          (let seq = [length_r r1, head_idx r1]
           in Some (hash_uint_sequence seq (length seq), s)))"

section \<open>Code-point strings in memory\<close>

text \<open>\<open>ustring_at s p xs\<close>: in state \<open>s\<close> the pointer \<open>p\<close> is a zero-terminated code-point
  string with the code points \<open>xs\<close>: the cells from \<open>p\<close> on hold \<open>xs\<close>, none of them
  zero, and then the terminating zero.\<close>

fun ustring_at :: "state \<Rightarrow> addr \<Rightarrow> u32 list \<Rightarrow> bool" where
  "ustring_at s p [] = (read32 s p = Some 0)"
| "ustring_at s p (x # xs) = (x \<noteq> 0 \<and> read32 s p = Some x \<and> ustring_at s (p + 1) xs)"

text \<open>A state whose allocated cells are exactly \<open>cs\<close>, from address 0 on, with no
  reduction stored, no symbol and nothing printed.\<close>

definition state_of :: "u32 list \<Rightarrow> state" where
  "state_of cs =
     \<lparr>cells = (\<lambda>a. if a < length cs then Some (cs ! a) else None), brk = length cs,
      reds = (\<lambda>a. None), rbrk = 0, symbols = (\<lambda>i. None), stdout = []\<rparr>"

text \<open>Modelled from the spec: \<^verbatim>\<open>dec_digit_to_value\<close> is defined in \<^verbatim>\<open>utilities.c\<close>, which is
  not among the sources. The spec: decimal literals are evaluated digit by digit; so the
  characters \<open>0\<close> to \<open>9\<close> have the values 0 to 9. Only these values are used below.\<close>

definition dec_digit_to_value :: "u8 \<Rightarrow> u64" where
  "dec_digit_to_value c = ucast (c - 0x30)"

text \<open>Modelled from the spec: \<^verbatim>\<open>hex_digit_to_value\<close> is defined in \<^verbatim>\<open>utilities.c\<close>, which is
  not among the sources. The spec: hexadecimal literals are evaluated digit by digit; so
  \<open>0\<close> to \<open>9\<close> have the values 0 to 9, and \<open>A\<close> to \<open>F\<close> and \<open>a\<close> to \<open>f\<close> the values 10
  to 15. Only these values are used below.\<close>

definition hex_digit_to_value :: "u8 \<Rightarrow> u64" where
  "hex_digit_to_value c =
     (if 0x30 \<le> c \<and> c \<le> 0x39 then ucast (c - 0x30)
      else if 0x41 \<le> c \<and> c \<le> 0x46 then ucast (c - 0x41) + 10
      else ucast (c - 0x61) + 10)"

text \<open>The code points of an ASCII string literal.\<close>

definition ustr :: "string \<Rightarrow> u32 list" where
  "ustr cs = map of_char cs"

text \<open>A state for examples: the code-point string \<open>name\<close> is stored at address 0 and
  is the name of symbol 7, the only symbol.\<close>

definition demo_state :: "u32 list \<Rightarrow> state" where
  "demo_state name =
     (state_of (name @ [0]))\<lparr>symbols := (\<lambda>i. if i = 7 then Some \<lparr>data = 0\<rparr> else None)\<rparr>"

text \<open>The number a literal denotes: the digits \<open>xs\<close>, valued by \<open>f\<close>, read in base \<open>b\<close>
  in the natural numbers.\<close>

definition literal_value :: "nat \<Rightarrow> (u8 \<Rightarrow> u64) \<Rightarrow> u32 list \<Rightarrow> nat" where
  "literal_value b f xs =
     (\<Sum>i<length xs. unat (f (ucast (xs ! i))) * b ^ (length xs - 1 - i))"

section \<open>UTF-8: what the encoder writes, the decoder reads back\<close>

text \<open>Facts about one byte hold for the few values its payload can take; they are
  checked value by value. A 32-bit word below \<open>k\<close> is one of \<open>0, \<dots>, k - 1\<close>.\<close>

lemma u32_less_cases: "(z::u32) < of_nat k \<Longrightarrow> \<exists>i<k. z = of_nat i"
proof -
  assume a: "z < of_nat k"
  have "unat z < unat (of_nat k :: u32)" using a by (simp add: word_less_nat_alt)
  also have "\<dots> \<le> k" by (simp add: unat_of_nat)
  finally have "unat z < k" .
  moreover have "z = of_nat (unat z)" by simp
  ultimately show ?thesis by blast
qed

lemma all_below: "list_all (\<lambda>i. P (of_nat i :: u32)) [0..<k] \<Longrightarrow> z < of_nat k \<Longrightarrow> P z"
  using u32_less_cases by (fastforce simp: list_all_iff)

lemma and_3F_less: "(x :: u32) AND 0x3F < 64"
  using and_mask_less'[of 6 x] by (simp add: mask_eq_exp_minus_1)

lemma cont_byte:
  fixes x :: u32
  shows "drop_bit 6 (ucast ((x AND 0x3F) OR 0x80) :: u8) = 2
       \<and> (ucast ((ucast ((x AND 0x3F) OR 0x80) :: u8) AND 0x3F) :: u32) = x AND 0x3F"
proof -
  have "list_all (\<lambda>i. drop_bit 6 (ucast ((of_nat i :: u32) OR 0x80) :: u8) = 2
       \<and> (ucast ((ucast ((of_nat i :: u32) OR 0x80) :: u8) AND 0x3F) :: u32) = of_nat i) [0..<64]"
    by code_simp
  from all_below[where P="\<lambda>z. drop_bit 6 (ucast (z OR 0x80) :: u8) = 2
       \<and> (ucast ((ucast (z OR 0x80) :: u8) AND 0x3F) :: u32) = z", OF this, of "x AND 0x3F"]
  show ?thesis using and_3F_less[of x] by simp
qed

lemma ascii_byte:
  fixes c :: u32
  assumes "c < 0x80"
  shows "((ucast (c AND 0x7F) :: u8) = 0 \<longleftrightarrow> c = 0)
       \<and> drop_bit 7 (ucast (c AND 0x7F) :: u8) = 0
       \<and> (ucast (ucast (c AND 0x7F) :: u8) :: u32) = c"
proof -
  have "list_all (\<lambda>i. ((ucast ((of_nat i :: u32) AND 0x7F) :: u8) = 0 \<longleftrightarrow> (of_nat i :: u32) = 0)
       \<and> drop_bit 7 (ucast ((of_nat i :: u32) AND 0x7F) :: u8) = 0
       \<and> (ucast (ucast ((of_nat i :: u32) AND 0x7F) :: u8) :: u32) = of_nat i) [0..<128]"
    by code_simp
  from all_below[where P="\<lambda>c. ((ucast (c AND 0x7F) :: u8) = 0 \<longleftrightarrow> c = 0)
       \<and> drop_bit 7 (ucast (c AND 0x7F) :: u8) = 0
       \<and> (ucast (ucast (c AND 0x7F) :: u8) :: u32) = c", OF this, of c]
  show ?thesis using assms by simp
qed

lemma lead2_byte:
  fixes y :: u32
  assumes "y < 32"
  shows "(ucast ((y AND 0xDF) OR 0xC0) :: u8) \<noteq> 0
       \<and> drop_bit 7 (ucast ((y AND 0xDF) OR 0xC0) :: u8) \<noteq> 0
       \<and> drop_bit 5 (ucast ((y AND 0xDF) OR 0xC0) :: u8) = 6
       \<and> (ucast ((ucast ((y AND 0xDF) OR 0xC0) :: u8) AND 0x1F) :: u32) = y"
proof -
  have "list_all (\<lambda>i. (ucast (((of_nat i :: u32) AND 0xDF) OR 0xC0) :: u8) \<noteq> 0
       \<and> drop_bit 7 (ucast (((of_nat i :: u32) AND 0xDF) OR 0xC0) :: u8) \<noteq> 0
       \<and> drop_bit 5 (ucast (((of_nat i :: u32) AND 0xDF) OR 0xC0) :: u8) = 6
       \<and> (ucast ((ucast (((of_nat i :: u32) AND 0xDF) OR 0xC0) :: u8) AND 0x1F) :: u32) = of_nat i)
     [0..<32]"
    by code_simp
  from all_below[where P="\<lambda>y. (ucast ((y AND 0xDF) OR 0xC0) :: u8) \<noteq> 0
       \<and> drop_bit 7 (ucast ((y AND 0xDF) OR 0xC0) :: u8) \<noteq> 0
       \<and> drop_bit 5 (ucast ((y AND 0xDF) OR 0xC0) :: u8) = 6
       \<and> (ucast ((ucast ((y AND 0xDF) OR 0xC0) :: u8) AND 0x1F) :: u32) = y", OF this, of y]
  show ?thesis using assms by simp
qed

lemma lead3_byte:
  fixes y :: u32
  assumes "y < 16"
  shows "(ucast ((y AND 0x0F) OR 0xE0) :: u8) \<noteq> 0
       \<and> drop_bit 7 (ucast ((y AND 0x0F) OR 0xE0) :: u8) \<noteq> 0
       \<and> drop_bit 5 (ucast ((y AND 0x0F) OR 0xE0) :: u8) \<noteq> 6
       \<and> drop_bit 4 (ucast ((y AND 0x0F) OR 0xE0) :: u8) = 0x0E
       \<and> (ucast ((ucast ((y AND 0x0F) OR 0xE0) :: u8) AND 0x0F) :: u32) = y"
proof -
  have "list_all (\<lambda>i. (ucast (((of_nat i :: u32) AND 0x0F) OR 0xE0) :: u8) \<noteq> 0
       \<and> drop_bit 7 (ucast (((of_nat i :: u32) AND 0x0F) OR 0xE0) :: u8) \<noteq> 0
       \<and> drop_bit 5 (ucast (((of_nat i :: u32) AND 0x0F) OR 0xE0) :: u8) \<noteq> 6
       \<and> drop_bit 4 (ucast (((of_nat i :: u32) AND 0x0F) OR 0xE0) :: u8) = 0x0E
       \<and> (ucast ((ucast (((of_nat i :: u32) AND 0x0F) OR 0xE0) :: u8) AND 0x0F) :: u32) = of_nat i)
     [0..<16]"
    by code_simp
  from all_below[where P="\<lambda>y. (ucast ((y AND 0x0F) OR 0xE0) :: u8) \<noteq> 0
       \<and> drop_bit 7 (ucast ((y AND 0x0F) OR 0xE0) :: u8) \<noteq> 0
       \<and> drop_bit 5 (ucast ((y AND 0x0F) OR 0xE0) :: u8) \<noteq> 6
       \<and> drop_bit 4 (ucast ((y AND 0x0F) OR 0xE0) :: u8) = 0x0E
       \<and> (ucast ((ucast ((y AND 0x0F) OR 0xE0) :: u8) AND 0x0F) :: u32) = y", OF this, of y]
  show ?thesis using assms by simp
qed

lemma lead4_byte:
  fixes y :: u32
  assumes "y < 8"
  shows "(ucast ((y AND 0x07) OR 0xF0) :: u8) \<noteq> 0
       \<and> drop_bit 7 (ucast ((y AND 0x07) OR 0xF0) :: u8) \<noteq> 0
       \<and> drop_bit 5 (ucast ((y AND 0x07) OR 0xF0) :: u8) \<noteq> 6
       \<and> drop_bit 4 (ucast ((y AND 0x07) OR 0xF0) :: u8) \<noteq> 0x0E
       \<and> drop_bit 3 (ucast ((y AND 0x07) OR 0xF0) :: u8) = 0x1E
       \<and> (ucast ((ucast ((y AND 0x07) OR 0xF0) :: u8) AND 0x07) :: u32) = y"
proof -
  have "list_all (\<lambda>i. (ucast (((of_nat i :: u32) AND 0x07) OR 0xF0) :: u8) \<noteq> 0
       \<and> drop_bit 7 (ucast (((of_nat i :: u32) AND 0x07) OR 0xF0) :: u8) \<noteq> 0
       \<and> drop_bit 5 (ucast (((of_nat i :: u32) AND 0x07) OR 0xF0) :: u8) \<noteq> 6
       \<and> drop_bit 4 (ucast (((of_nat i :: u32) AND 0x07) OR 0xF0) :: u8) \<noteq> 0x0E
       \<and> drop_bit 3 (ucast (((of_nat i :: u32) AND 0x07) OR 0xF0) :: u8) = 0x1E
       \<and> (ucast ((ucast (((of_nat i :: u32) AND 0x07) OR 0xF0) :: u8) AND 0x07) :: u32) = of_nat i)
     [0..<8]"
    by code_simp
  from all_below[where P="\<lambda>y. (ucast ((y AND 0x07) OR 0xF0) :: u8) \<noteq> 0
       \<and> drop_bit 7 (ucast ((y AND 0x07) OR 0xF0) :: u8) \<noteq> 0
       \<and> drop_bit 5 (ucast ((y AND 0x07) OR 0xF0) :: u8) \<noteq> 6
       \<and> drop_bit 4 (ucast ((y AND 0x07) OR 0xF0) :: u8) \<noteq> 0x0E
       \<and> drop_bit 3 (ucast ((y AND 0x07) OR 0xF0) :: u8) = 0x1E
       \<and> (ucast ((ucast ((y AND 0x07) OR 0xF0) :: u8) AND 0x07) :: u32) = y", OF this, of y]
  show ?thesis using assms by simp
qed

lemma and_3F_take: "(c :: u32) AND 0x3F = take_bit 6 c"
  by (simp add: take_bit_eq_mask mask_eq_exp_minus_1)

lemma drop_bit_less:
  fixes c :: u32
  assumes "unat c < m * 2 ^ k"
  shows "unat (drop_bit k c) < m"
proof -
  have "unat (drop_bit k c) = drop_bit k (unat c)"
    by (rule unat_drop_bit_eq)
  also have "\<dots> = unat c div 2 ^ k"
    by (rule drop_bit_eq_div)
  finally show ?thesis using assms by (simp add: less_mult_imp_div_less)
qed

lemma hi2: "(c::u32) < 0x800 \<Longrightarrow> drop_bit 6 c < 32"
  using drop_bit_less[of c 32 6] by (simp add: word_less_nat_alt)

lemma hi3: "(c::u32) < 0x10000 \<Longrightarrow> drop_bit 12 c < 16"
  using drop_bit_less[of c 16 12] by (simp add: word_less_nat_alt)

lemma hi4: "(c::u32) \<le> 0x1FFFFF \<Longrightarrow> drop_bit 18 c < 8"
  using drop_bit_less[of c 8 18] by (simp add: word_less_nat_alt word_le_nat_alt)

lemma join2: "push_bit 6 (drop_bit 6 c) OR (c AND 0x3F) = (c :: u32)"
  unfolding and_3F_take by (rule bit_word_eqI) (auto simp: bit_simps)

lemma join3:
  "push_bit 12 (drop_bit 12 c) OR push_bit 6 (drop_bit 6 c AND 0x3F) OR (c AND 0x3F) = (c :: u32)"
  unfolding and_3F_take
proof (rule bit_word_eqI)
  fix n :: nat
  assume "n < LENGTH(32)"
  then have n: "n < 32" by simp
  consider "n < 6" | "6 \<le> n" "n < 12" | "12 \<le> n" by linarith
  then show "bit (push_bit 12 (drop_bit 12 c) OR push_bit 6 (take_bit 6 (drop_bit 6 c))
      OR take_bit 6 c) n = bit c n"
    using n by cases (auto simp: bit_simps)
qed

lemma join4:
  "push_bit 18 (drop_bit 18 c) OR push_bit 12 (drop_bit 12 c AND 0x3F)
   OR push_bit 6 (drop_bit 6 c AND 0x3F) OR (c AND 0x3F) = (c :: u32)"
  unfolding and_3F_take
proof (rule bit_word_eqI)
  fix n :: nat
  assume "n < LENGTH(32)"
  then have n: "n < 32" by simp
  consider "n < 6" | "6 \<le> n" "n < 12" | "12 \<le> n" "n < 18" | "18 \<le> n" by linarith
  then show "bit (push_bit 18 (drop_bit 18 c) OR push_bit 12 (take_bit 6 (drop_bit 12 c))
      OR push_bit 6 (take_bit 6 (drop_bit 6 c)) OR take_bit 6 c) n = bit c n"
    using n by cases (auto simp: bit_simps)
qed

lemma put_unicode_1:
  "c < 0x80 \<Longrightarrow> put_unicode c out = out @ [ucast (c AND 0x7F)]"
  by (simp add: put_unicode_def putchar_def)

lemma put_unicode_2:
  "\<not> c < 0x80 \<Longrightarrow> c < 0x800 \<Longrightarrow>
   put_unicode c out =
     out @ [ucast ((drop_bit 6 c AND 0xDF) OR 0xC0), ucast ((c AND 0x3F) OR 0x80)]"
  by (simp add: put_unicode_def putchar_def)

lemma put_unicode_3:
  "\<not> c < 0x80 \<Longrightarrow> \<not> c < 0x800 \<Longrightarrow> c < 0x10000 \<Longrightarrow>
   put_unicode c out =
     out @ [ucast ((drop_bit 12 c AND 0x0F) OR 0xE0), ucast ((drop_bit 6 c AND 0x3F) OR 0x80),
            ucast ((c AND 0x3F) OR 0x80)]"
  by (simp add: put_unicode_def putchar_def)

lemma put_unicode_4:
  "\<not> c < 0x80 \<Longrightarrow> \<not> c < 0x800 \<Longrightarrow> \<not> c < 0x10000 \<Longrightarrow> c \<le> 0x1FFFFF \<Longrightarrow>
   put_unicode c out =
     out @ [ucast ((drop_bit 18 c AND 0x07) OR 0xF0), ucast ((drop_bit 12 c AND 0x3F) OR 0x80),
            ucast ((drop_bit 6 c AND 0x3F) OR 0x80), ucast ((c AND 0x3F) OR 0x80)]"
  by (simp add: put_unicode_def putchar_def)

lemma eat_1:
  assumes "c < 0x80"
  shows "eat_utf8 (ucast (c AND 0x7F) # rest) out = Some (c, rest, out)"
  using ascii_byte[OF assms] by (auto simp: eat_utf8_def)

lemma eat_2:
  assumes "c < 0x800"
  shows "eat_utf8 (ucast ((drop_bit 6 c AND 0xDF) OR 0xC0) # ucast ((c AND 0x3F) OR 0x80) # rest)
           out = Some (c, rest, out)"
  using lead2_byte[OF hi2[OF assms]] cont_byte[of c] join2[of c]
  by (simp add: eat_utf8_def)

lemma eat_3:
  assumes "c < 0x10000"
  shows "eat_utf8 (ucast ((drop_bit 12 c AND 0x0F) OR 0xE0)
                   # ucast ((drop_bit 6 c AND 0x3F) OR 0x80)
                   # ucast ((c AND 0x3F) OR 0x80) # rest)
           out = Some (c, rest, out)"
  using lead3_byte[OF hi3[OF assms]] cont_byte[of c] cont_byte[of "drop_bit 6 c"] join3[of c]
  by (simp add: eat_utf8_def)

lemma eat_4:
  assumes "c \<le> 0x1FFFFF"
  shows "eat_utf8 (ucast ((drop_bit 18 c AND 0x07) OR 0xF0)
                   # ucast ((drop_bit 12 c AND 0x3F) OR 0x80)
                   # ucast ((drop_bit 6 c AND 0x3F) OR 0x80)
                   # ucast ((c AND 0x3F) OR 0x80) # rest)
           out = Some (c, rest, out)"
  using lead4_byte[OF hi4[OF assms]] cont_byte[of c] cont_byte[of "drop_bit 6 c"]
    cont_byte[of "drop_bit 12 c"] join4[of c]
  by (simp add: eat_utf8_def)

lemma eat_put_unicode:
  assumes "c < 0x200000"
  shows "eat_utf8 (put_unicode c [] @ rest) out = Some (c, rest, out)"
proof -
  have le: "c \<le> 0x1FFFFF" using assms by (simp add: word_less_nat_alt word_le_nat_alt)
  consider "c < 0x80" | "\<not> c < 0x80" "c < 0x800"
    | "\<not> c < 0x80" "\<not> c < 0x800" "c < 0x10000"
    | "\<not> c < 0x80" "\<not> c < 0x800" "\<not> c < 0x10000" by blast
  then show ?thesis
  proof cases
    case 1 then show ?thesis by (simp add: put_unicode_1 eat_1)
  next
    case 2 then show ?thesis by (simp add: put_unicode_2 eat_2)
  next
    case 3 then show ?thesis by (simp add: put_unicode_3 eat_3)
  next
    case 4 then show ?thesis using le by (simp add: put_unicode_4 eat_4)
  qed
qed

lemma put_unicode_append: "put_unicode c out = out @ put_unicode c []"
  by (simp add: put_unicode_def putchar_def printf_def Let_def)

text \<open>
  C9. UTF-8 round trip: for every code point \<open>c < 0x200000\<close>, running \<^verbatim>\<open>eat_utf8\<close> on
  the bytes \<open>bs\<close> that \<^verbatim>\<open>put_unicode\<close> writes for \<open>c\<close> (followed by any further input
  \<open>rest\<close>) returns \<open>c\<close>, prints nothing, and leaves the input pointer exactly
  \<open>length bs\<close> bytes further.
\<close>

theorem utf8_round_trip:
  assumes "c < 0x200000" and "put_unicode c out = out @ bs"
  shows "eat_utf8 (bs @ rest) out' = Some (c, drop (length bs) (bs @ rest), out')"
proof -
  have "bs = put_unicode c []" using assms(2) put_unicode_append[of c out] by simp
  then show ?thesis using eat_put_unicode[OF assms(1)] by simp
qed

theorem utf8_round_trip_witness:
  "put_unicode 0x20AC [0x3D] = [0x3D] @ [0xE2, 0x82, 0xAC]
   \<and> eat_utf8 ([0xE2, 0x82, 0xAC] @ [0x41, 0]) [] = Some (0x20AC, [0x41, 0], [])"
  using utf8_round_trip[of "0x20AC" "[0x3D]" "[0xE2, 0x82, 0xAC]" "[0x41, 0]" "[]"]
  by (simp add: put_unicode_def putchar_def)

section \<open>Escape characters\<close>

text \<open>
  C2. \<^verbatim>\<open>escape_to_unicode\<close> maps the escape letters \<open>a b t n v f r\<close> to U+07, U+08, U+09,
  U+0A, U+0B, U+0C, U+0D, and every other code point \<open>x\<close> to \<open>x\<close> itself (the
  backslash, the quotes, the brackets and the hyphen among them).
\<close>

theorem escape_to_unicode_table:
  "escape_to_unicode (of_char CHR ''a'') = 0x07
   \<and> escape_to_unicode (of_char CHR ''b'') = 0x08
   \<and> escape_to_unicode (of_char CHR ''t'') = 0x09
   \<and> escape_to_unicode (of_char CHR ''n'') = 0x0A
   \<and> escape_to_unicode (of_char CHR ''v'') = 0x0B
   \<and> escape_to_unicode (of_char CHR ''f'') = 0x0C
   \<and> escape_to_unicode (of_char CHR ''r'') = 0x0D
   \<and> (x \<notin> of_char ` set ''abtnvfr'' \<longrightarrow> escape_to_unicode x = x)"
  by (simp add: escape_to_unicode_def)

theorem escape_to_unicode_table_witness:
  "escape_to_unicode (of_char CHR 0x5C) = of_char CHR 0x5C
   \<and> escape_to_unicode (of_char CHR 0x27) = of_char CHR 0x27
   \<and> escape_to_unicode (of_char CHR 0x22) = of_char CHR 0x22
   \<and> escape_to_unicode (of_char CHR ''['') = of_char CHR ''[''
   \<and> escape_to_unicode (of_char CHR '']'') = of_char CHR '']''
   \<and> escape_to_unicode (of_char CHR ''-'') = of_char CHR ''-''
   \<and> escape_to_unicode (of_char CHR ''n'') = 0x0A"
  using escape_to_unicode_table[of "of_char CHR 0x5C"]
    escape_to_unicode_table[of "of_char CHR 0x27"]
    escape_to_unicode_table[of "of_char CHR 0x22"]
    escape_to_unicode_table[of "of_char CHR ''[''"]
    escape_to_unicode_table[of "of_char CHR '']''"]
    escape_to_unicode_table[of "of_char CHR ''-''"]
  by simp

section \<open>The augment character and the debug rendering\<close>

lemma put_unicode_short:
  assumes "c < 0x200000"
  shows "length (put_unicode c []) \<le> 4"
proof -
  have le: "c \<le> 0x1FFFFF" using assms by (simp add: word_less_nat_alt word_le_nat_alt)
  consider "c < 0x80" | "\<not> c < 0x80" "c < 0x800"
    | "\<not> c < 0x80" "\<not> c < 0x800" "c < 0x10000"
    | "\<not> c < 0x80" "\<not> c < 0x800" "\<not> c < 0x10000" by blast
  then show ?thesis
  proof cases
    case 1 then show ?thesis by (simp add: put_unicode_1)
  next
    case 2 then show ?thesis by (simp add: put_unicode_2)
  next
    case 3 then show ?thesis by (simp add: put_unicode_3)
  next
    case 4 then show ?thesis using le by (simp add: put_unicode_4)
  qed
qed

lemma put_unicode_invalid:
  "\<not> c < 0x200000 \<Longrightarrow>
   put_unicode c out =
     printf (ascii ''ERROR: invalid unicode codepoint '' @ [0x22] @ fmt_u (unat c) @ [0x22, 0x0A]) out"
  by (simp add: put_unicode_def word_less_nat_alt word_le_nat_alt)

text \<open>
  C7. \<^verbatim>\<open>AUGMENT_CHAR\<close> is \<open>0x200000\<close>, the first value \<^verbatim>\<open>put_unicode\<close> does not encode
  (it encodes \<open>c\<close> exactly when \<open>c < AUGMENT_CHAR\<close>, and prints its error message
  otherwise). \<^verbatim>\<open>unicode_str\<close> renders code point 0 as the marker U+2300 (bytes E2 8C 80),
  \<^verbatim>\<open>AUGMENT_CHAR\<close> as the marker U+1F596 (bytes F0 9F 96 96), and every other code point
  as \<^verbatim>\<open>put_unicode\<close> does.
\<close>

theorem unicode_str_markers:
  "AUGMENT_CHAR = 0x200000
   \<and> (c < AUGMENT_CHAR \<longleftrightarrow>
        put_unicode c out \<noteq>
          printf (ascii ''ERROR: invalid unicode codepoint '' @ [0x22] @ fmt_u (unat c)
                  @ [0x22, 0x0A]) out)
   \<and> unicode_str 0 out = put_unicode 0x2300 out
   \<and> put_unicode 0x2300 out = out @ [0xE2, 0x8C, 0x80]
   \<and> unicode_str AUGMENT_CHAR out = put_unicode 0x1F596 out
   \<and> put_unicode 0x1F596 out = out @ [0xF0, 0x9F, 0x96, 0x96]
   \<and> (c \<noteq> 0 \<and> c \<noteq> AUGMENT_CHAR \<longrightarrow> unicode_str c out = put_unicode c out)"
proof -
  have "put_unicode c out \<noteq>
          printf (ascii ''ERROR: invalid unicode codepoint '' @ [0x22] @ fmt_u (unat c)
                  @ [0x22, 0x0A]) out" if "c < 0x200000"
  proof
    assume "put_unicode c out =
          printf (ascii ''ERROR: invalid unicode codepoint '' @ [0x22] @ fmt_u (unat c)
                  @ [0x22, 0x0A]) out"
    then have "put_unicode c [] = ascii ''ERROR: invalid unicode codepoint '' @ [0x22] @ fmt_u (unat c)
                  @ [0x22, 0x0A]"
      using put_unicode_append[of c out] by (simp add: printf_def)
    then have "length (put_unicode c []) > 4" by (simp add: ascii_def)
    with put_unicode_short[OF that] show False by simp
  qed
  moreover have "put_unicode 0x2300 out = out @ [0xE2, 0x8C, 0x80]"
    by (simp add: put_unicode_def putchar_def)
  moreover have "put_unicode 0x1F596 out = out @ [0xF0, 0x9F, 0x96, 0x96]"
    by (simp add: put_unicode_def putchar_def)
  ultimately show ?thesis
    using put_unicode_invalid[of c out] by (auto simp: AUGMENT_CHAR_def unicode_str_def)
qed

theorem unicode_str_markers_witness:
  "unicode_str 0x41 [] = [0x41] \<and> unicode_str 0 [] = [0xE2, 0x8C, 0x80]
   \<and> unicode_str 0x200000 [] = [0xF0, 0x9F, 0x96, 0x96]"
  using unicode_str_markers[of "0x41" "[]"]
  by (simp add: AUGMENT_CHAR_def put_unicode_1)


section \<open>Reading a stored string\<close>

lemma read32_stdout [simp]: "read32 (s\<lparr>stdout := x\<rparr>) a = read32 s a"
  by (simp add: read32_def)

lemma ustring_at_stdout [simp]: "ustring_at (s\<lparr>stdout := x\<rparr>) p xs = ustring_at s p xs"
  by (induction xs arbitrary: p) simp_all

lemma ustring_at_read:
  "ustring_at s p xs \<Longrightarrow> i < length xs \<Longrightarrow> read32 s (p + i) = Some (xs ! i) \<and> xs ! i \<noteq> 0"
proof (induction xs arbitrary: p i)
  case Nil
  then show ?case by simp
next
  case (Cons x xs)
  show ?case
  proof (cases i)
    case 0
    with Cons.prems show ?thesis by simp
  next
    case (Suc j)
    with Cons.prems have "ustring_at s (p + 1) xs" "j < length xs" by simp_all
    from Cons.IH[OF this] Suc show ?thesis by simp
  qed
qed

lemma ustring_at_end: "ustring_at s p xs \<Longrightarrow> read32 s (p + length xs) = Some 0"
proof (induction xs arbitrary: p)
  case Nil
  then show ?case by simp
next
  case (Cons x xs)
  from Cons.prems have "ustring_at s (Suc p) xs" by simp
  from Cons.IH[OF this] show ?case by simp
qed

lemma ustring_at_bound:
  "ustring_at s p xs \<Longrightarrow> p + length xs < brk s \<and> p + length xs < addr_limit"
  using ustring_at_end[of s p xs] by (auto simp: read32_def split: if_splits)

lemma ustring_at_frame:
  "(\<And>a. p \<le> a \<Longrightarrow> a \<le> p + length xs \<Longrightarrow> read32 s' a = read32 s a) \<Longrightarrow>
   ustring_at s' p xs = ustring_at s p xs"
  by (induction xs arbitrary: p) auto

lemma ustring_len_loop_at:
  "ustring_at s (p + k) xs \<Longrightarrow> ustring_len_loop s p k = Some (k + length xs)"
proof (induction xs arbitrary: k)
  case Nil
  then show ?case by (simp add: ustring_len_loop.simps)
next
  case (Cons x xs)
  then have "ustring_at s (p + (k + 1)) xs" by (simp add: add.assoc)
  from Cons.IH[OF this] Cons.prems show ?case
    by (subst ustring_len_loop.simps) simp
qed

lemma ustring_len_at: "ustring_at s p xs \<Longrightarrow> ustring_len s p = Some (length xs)"
  using ustring_len_loop_at[of s p 0 xs] by (simp add: ustring_len_def)

lemma ustring_cmp_same:
  "ustring_at s a xs \<Longrightarrow> ustring_at s b xs \<Longrightarrow> ustring_cmp s a b = Some 0"
proof (induction xs arbitrary: a b)
  case Nil
  then show ?case by (simp add: ustring_cmp.simps)
next
  case (Cons x xs)
  then have "ustring_cmp s (a + 1) (b + 1) = Some 0" by simp
  with Cons.prems show ?case by (subst ustring_cmp.simps) simp
qed

lemma ustring_str_at:
  "ustring_at s p xs \<Longrightarrow> ustring_str p s = Some (s\<lparr>stdout := fold put_unicode xs (stdout s)\<rparr>)"
proof (induction xs arbitrary: p s)
  case Nil
  then show ?case by (simp add: ustring_str.simps)
next
  case (Cons x xs)
  then have "ustring_at (s\<lparr>stdout := put_unicode x (stdout s)\<rparr>) (p + 1) xs" by simp
  from Cons.IH[OF this] Cons.prems show ?case
    by (subst ustring_str.simps) simp
qed

lemma fold_put_unicode_append: "fold put_unicode xs out = out @ fold put_unicode xs []"
proof (induction xs arbitrary: out)
  case Nil
  then show ?case by simp
next
  case (Cons x xs)
  have "fold put_unicode (x # xs) out = fold put_unicode xs (put_unicode x out)" by simp
  also have "\<dots> = put_unicode x out @ fold put_unicode xs []" by (rule Cons.IH)
  also have "\<dots> = out @ put_unicode x [] @ fold put_unicode xs []"
    using put_unicode_append[of x out] by simp
  also have "put_unicode x [] @ fold put_unicode xs [] = fold put_unicode xs (put_unicode x [])"
    by (rule Cons.IH [symmetric])
  finally show ?case by simp
qed

section \<open>Cloning\<close>

lemma read32_write32:
  "write32 s a v = Some s' \<Longrightarrow> read32 s' b = (if b = a then Some v else read32 s b)"
  by (auto simp: write32_def read32_def split: if_splits)

lemma write32_Some:
  "a < brk s \<Longrightarrow> a < addr_limit \<Longrightarrow> write32 s a v = Some (s\<lparr>cells := (cells s)(a \<mapsto> v)\<rparr>)"
  by (simp add: write32_def)

lemma clone_loop_at:
  assumes "ustring_at s string xs" and "string + length xs < ptr"
    and "ptr + length xs < brk s" and "ptr + length xs < addr_limit"
  shows "\<exists>s'. clone_loop s ptr string = Some s' \<and> s' = s\<lparr>cells := cells s'\<rparr>
           \<and> ustring_at s' ptr xs \<and> (\<forall>a. a < ptr \<longrightarrow> cells s' a = cells s a)"
  using assms
proof (induction xs arbitrary: s ptr string)
  case Nil
  let ?s1 = "s\<lparr>cells := (cells s)(ptr \<mapsto> 0)\<rparr>"
  have w: "write32 s ptr 0 = Some ?s1" using Nil.prems by (simp add: write32_Some)
  have "clone_loop s ptr string = Some ?s1"
    using Nil.prems w by (subst clone_loop.simps) simp
  moreover have "read32 ?s1 ptr = Some 0" using read32_write32[OF w, of ptr] by simp
  ultimately show ?case by simp
next
  case (Cons x xs)
  let ?s1 = "s\<lparr>cells := (cells s)(ptr \<mapsto> x)\<rparr>"
  have w: "write32 s ptr x = Some ?s1" using Cons.prems by (simp add: write32_Some)
  have x: "x \<noteq> 0" "read32 s string = Some x" "ustring_at s (string + 1) xs"
    using Cons.prems by simp_all
  have "ustring_at ?s1 (string + 1) xs = ustring_at s (string + 1) xs"
  proof (rule ustring_at_frame)
    fix a assume "string + 1 \<le> a" "a \<le> string + 1 + length xs"
    then have "a \<noteq> ptr" using Cons.prems by simp
    then show "read32 ?s1 a = read32 s a" using read32_write32[OF w, of a] by simp
  qed
  with x have at1: "ustring_at ?s1 (string + 1) xs" by simp
  have "\<exists>s'. clone_loop ?s1 (ptr + 1) (string + 1) = Some s' \<and> s' = ?s1\<lparr>cells := cells s'\<rparr>
           \<and> ustring_at s' (ptr + 1) xs \<and> (\<forall>a. a < ptr + 1 \<longrightarrow> cells s' a = cells ?s1 a)"
    using Cons.prems by (intro Cons.IH[OF at1]) simp_all
  then obtain s' where s': "clone_loop ?s1 (ptr + 1) (string + 1) = Some s'"
    "s' = ?s1\<lparr>cells := cells s'\<rparr>" "ustring_at s' (ptr + 1) xs"
    "\<forall>a. a < ptr + 1 \<longrightarrow> cells s' a = cells ?s1 a" by blast
  have run: "clone_loop s ptr string = Some s'"
    using x w s'(1) by (subst clone_loop.simps) simp
  have eq: "s' = s\<lparr>cells := cells s'\<rparr>" using s'(2) by (cases s; cases s'; simp)
  have "cells s' ptr = Some x" using s'(4) by simp
  moreover have "brk s' = brk s" using eq by (cases s; cases s'; simp)
  ultimately have "read32 s' ptr = Some x" using Cons.prems by (simp add: read32_def)
  with x s'(3) have "ustring_at s' ptr (x # xs)" by simp
  moreover have "\<forall>a. a < ptr \<longrightarrow> cells s' a = cells s a" using s'(4) by simp
  ultimately show ?case using run eq by blast
qed

text \<open>
  C10. For every zero-terminated code-point string \<open>xs\<close> at \<open>string\<close> (and a block for
  the copy that fits in the address space, so that \<^verbatim>\<open>malloc\<close> succeeds),
  \<^verbatim>\<open>ustring_clone\<close> returns a pointer \<open>copy\<close> into cells that were not allocated before,
  the copy has the length of the original, \<^verbatim>\<open>ustring_cmp\<close> of the copy and the original
  is 0, and every cell allocated before, the original string among them, is unchanged.
\<close>

theorem ustring_clone_copy:
  assumes "ustring_at s string xs" and "brk s + length xs + 1 \<le> addr_limit"
  shows "\<exists>copy s'. ustring_clone s string = Some (copy, s')
           \<and> brk s \<le> copy \<and> copy + length xs < brk s'
           \<and> ustring_len s string = Some (length xs)
           \<and> ustring_len s' copy = Some (length xs)
           \<and> ustring_cmp s' copy string = Some 0
           \<and> ustring_at s' copy xs
           \<and> ustring_at s' string xs
           \<and> (\<forall>a. a < brk s \<longrightarrow> read32 s' a = read32 s a)"
proof -
  let ?n = "length xs"
  let ?s1 = "s\<lparr>cells := (\<lambda>a. if a < brk s then cells s a else None), brk := brk s + (?n + 1)\<rparr>"
  have m: "malloc32 (?n + 1) s = (brk s, ?s1)" by (simp add: malloc32_def)
  have b: "string + ?n < brk s" "string + ?n < addr_limit"
    using ustring_at_bound[OF assms(1)] by simp_all
  have r1: "read32 ?s1 a = read32 s a" if "a < brk s" for a
    using that by (simp add: read32_def)
  have "ustring_at ?s1 string xs = ustring_at s string xs"
    using b by (intro ustring_at_frame r1) simp
  with assms(1) have at1: "ustring_at ?s1 string xs" by simp
  have "\<exists>s'. clone_loop ?s1 (brk s) string = Some s' \<and> s' = ?s1\<lparr>cells := cells s'\<rparr>
           \<and> ustring_at s' (brk s) xs \<and> (\<forall>a. a < brk s \<longrightarrow> cells s' a = cells ?s1 a)"
    using b assms(2) by (intro clone_loop_at[OF at1]) simp_all
  then obtain s' where s': "clone_loop ?s1 (brk s) string = Some s'"
    "s' = ?s1\<lparr>cells := cells s'\<rparr>" "ustring_at s' (brk s) xs"
    "\<forall>a. a < brk s \<longrightarrow> cells s' a = cells ?s1 a" by blast
  have brk': "brk s' = brk s + (?n + 1)" using s'(2) by (cases s; cases s'; simp)
  have r2: "read32 s' a = read32 s a" if "a < brk s" for a
    using that s'(4) brk' by (simp add: read32_def)
  have "ustring_at s' string xs = ustring_at s string xs"
    using b by (intro ustring_at_frame r2) simp
  with assms(1) have at2: "ustring_at s' string xs" by simp
  have len: "ustring_len s string = Some ?n" by (rule ustring_len_at[OF assms(1)])
  have "ustring_clone s string = Some (brk s, s')"
    using len m s'(1) by (simp add: ustring_clone_def)
  moreover have "ustring_len s' (brk s) = Some ?n" by (rule ustring_len_at[OF s'(3)])
  moreover have "ustring_cmp s' (brk s) string = Some 0" by (rule ustring_cmp_same[OF s'(3) at2])
  ultimately show ?thesis using brk' s'(3) at2 r2 len by auto
qed

theorem ustring_clone_copy_witness:
  "\<exists>copy s'. ustring_clone (state_of [0x61, 0x62, 0]) 0 = Some (copy, s')
           \<and> 3 \<le> copy \<and> copy + 2 < brk s'
           \<and> ustring_len (state_of [0x61, 0x62, 0]) 0 = Some 2
           \<and> ustring_len s' copy = Some 2
           \<and> ustring_cmp s' copy 0 = Some 0
           \<and> ustring_at s' copy [0x61, 0x62]
           \<and> ustring_at s' 0 [0x61, 0x62]"
proof -
  have h1: "ustring_at (state_of [0x61, 0x62, 0]) 0 [0x61, 0x62]"
    by (simp add: state_of_def read32_def addr_limit_def)
  have h2: "brk (state_of [0x61, 0x62, 0]) + length [0x61 :: u32, 0x62] + 1 \<le> addr_limit"
    by (simp add: state_of_def addr_limit_def)
  from ustring_clone_copy[OF h1 h2] show ?thesis by (auto simp: state_of_def)
qed

section \<open>Numeric literals: positional value and wrap-around\<close>

lemma start_index:
  assumes "n < 2 ^ 62"
  shows "sint (word_of_nat n - 1 :: u64) = int n - 1"
proof (cases n)
  case 0
  then show ?thesis by simp
next
  case (Suc k)
  then have k: "int k < 2 ^ 62" using assms by simp
  have e: "(word_of_nat n - 1 :: u64) = word_of_nat k" using Suc by simp
  have "sint (word_of_nat k :: u64) = sint (word_of_int (int k) :: u64)" by simp
  also have "\<dots> = (int k + 2 ^ 63) mod 2 ^ 64 - 2 ^ 63"
    unfolding int_word_sint by simp
  also have "(int k + 2 ^ 63) mod 2 ^ 64 = int k + 2 ^ 63"
    using k by (intro mod_pos_pos_trivial) simp_all
  finally show ?thesis using Suc e by simp
qed

lemma parse_base_loop_at:
  assumes "ustring_at s str xs" and "k \<le> length xs"
  shows "parse_base_loop s str base f (int k - 1) pow val =
           Some (val + (\<Sum>i<k. f (ucast (xs ! i)) * (pow * base ^ (k - 1 - i))))"
  using assms(2)
proof (induction k arbitrary: pow val)
  case 0
  then show ?case by (subst parse_base_loop.simps) simp
next
  case (Suc k)
  then have k: "k < length xs" by simp
  have rd: "read32 s (str + k) = Some (xs ! k)" using ustring_at_read[OF assms(1) k] by simp
  have "parse_base_loop s str base f (int (Suc k) - 1) pow val =
          parse_base_loop s str base f (int k - 1) (pow * base) (val + f (ucast (xs ! k)) * pow)"
    using rd by (subst parse_base_loop.simps) simp
  also have "\<dots> = Some (val + f (ucast (xs ! k)) * pow
        + (\<Sum>i<k. f (ucast (xs ! i)) * (pow * base * base ^ (k - 1 - i))))"
    using k by (intro Suc.IH) simp
  also have "(\<Sum>i<k. f (ucast (xs ! i)) * (pow * base * base ^ (k - 1 - i)))
      = (\<Sum>i<k. f (ucast (xs ! i)) * (pow * base ^ (Suc k - 1 - i)))"
  proof (rule sum.cong)
    fix i assume "i \<in> {..<k}"
    then have "Suc k - 1 - i = Suc (k - 1 - i)" by auto
    then show "f (ucast (xs ! i)) * (pow * base * base ^ (k - 1 - i))
        = f (ucast (xs ! i)) * (pow * base ^ (Suc k - 1 - i))"
      by (simp add: mult.assoc)
  qed simp
  finally show ?case by (simp add: add.assoc add.commute)
qed

lemma ustring_parse_base_at:
  assumes "ustring_at s str xs"
  shows "ustring_parse_base s str base f =
           Some (\<Sum>i<length xs. f (ucast (xs ! i)) * base ^ (length xs - 1 - i))"
proof -
  have "length xs < 2 ^ 62" using ustring_at_bound[OF assms] by (simp add: addr_limit_def)
  then have "sint (word_of_nat (length xs) - 1 :: u64) = int (length xs) - 1"
    by (rule start_index)
  then show ?thesis
    using parse_base_loop_at[OF assms, of "length xs" base f 1 0] ustring_len_at[OF assms]
    by (simp add: ustring_parse_base_def)
qed

lemma positional_horner:
  fixes g :: "'a \<Rightarrow> 'b::comm_semiring_1"
  shows "(\<Sum>i<length xs. g (xs ! i) * b ^ (length xs - 1 - i)) = foldl (\<lambda>a x. a * b + g x) 0 xs"
proof (induction xs rule: rev_induct)
  case Nil
  then show ?case by simp
next
  case (snoc x xs)
  have "(\<Sum>i<length xs. g ((xs @ [x]) ! i) * b ^ (length (xs @ [x]) - 1 - i))
      = (\<Sum>i<length xs. g (xs ! i) * b ^ (length xs - 1 - i) * b)"
  proof (rule sum.cong)
    fix i assume "i \<in> {..<length xs}"
    then have i: "i < length xs" by simp
    then have "length (xs @ [x]) - 1 - i = Suc (length xs - 1 - i)" by simp
    then show "g ((xs @ [x]) ! i) * b ^ (length (xs @ [x]) - 1 - i)
        = g (xs ! i) * b ^ (length xs - 1 - i) * b"
      using i by (simp add: nth_append ac_simps)
  qed simp
  also have "\<dots> = (\<Sum>i<length xs. g (xs ! i) * b ^ (length xs - 1 - i)) * b"
    by (simp add: sum_distrib_right)
  finally show ?case using snoc.IH by simp
qed


text \<open>
  C4. For every digit string \<open>xs\<close> of length \<open>n\<close> at \<open>str\<close> and every digit-value function
  \<open>f\<close>, \<^verbatim>\<open>ustring_parse_base\<close> returns the sum over \<open>i\<close> of \<open>f(xs[i]) * base^(n-1-i)\<close>, in
  64-bit arithmetic (\<open>f\<close> receives the code point narrowed to \<^verbatim>\<open>char\<close>);
  \<^verbatim>\<open>ustring_parse_dec\<close> and \<^verbatim>\<open>ustring_parse_hex\<close> are this with base 10 and base 16.
\<close>

theorem ustring_parse_base_positional:
  assumes "ustring_at s str xs"
  shows "ustring_parse_base s str base f =
           Some (\<Sum>i<length xs. f (ucast (xs ! i)) * base ^ (length xs - 1 - i))
       \<and> ustring_parse_dec d s str =
           Some (\<Sum>i<length xs. d (ucast (xs ! i)) * 10 ^ (length xs - 1 - i))
       \<and> ustring_parse_hex h s str =
           Some (\<Sum>i<length xs. h (ucast (xs ! i)) * 16 ^ (length xs - 1 - i))"
  using ustring_parse_base_at[OF assms]
  by (simp add: ustring_parse_dec_def ustring_parse_hex_def)


theorem ustring_parse_base_positional_witness:
  "ustring_parse_base (state_of (ustr ''101'' @ [0])) 0 2 dec_digit_to_value = Some 5
   \<and> ustring_parse_dec dec_digit_to_value (state_of (ustr ''101'' @ [0])) 0 = Some 101
   \<and> ustring_parse_hex hex_digit_to_value (state_of (ustr ''101'' @ [0])) 0 = Some 257
   \<and> ustring_parse_hex hex_digit_to_value (state_of (ustr ''fF'' @ [0])) 0 = Some 255"
proof -
  have h1: "ustring_at (state_of (ustr ''101'' @ [0])) 0 (ustr ''101'')"
    by (simp add: state_of_def read32_def addr_limit_def ustr_def)
  have h2: "ustring_at (state_of (ustr ''fF'' @ [0])) 0 (ustr ''fF'')"
    by (simp add: state_of_def read32_def addr_limit_def ustr_def)
  show ?thesis
    using ustring_parse_base_positional[OF h1, of 2 dec_digit_to_value dec_digit_to_value
        hex_digit_to_value]
      ustring_parse_base_positional[OF h2, of 2 dec_digit_to_value dec_digit_to_value
        hex_digit_to_value]
    unfolding positional_horner
    by (simp add: ustr_def dec_digit_to_value_def hex_digit_to_value_def)
qed

text \<open>
  C3, as stated, fails: the literal \<open>18446744073709551616\<close> denotes \<open>2 ^ 64\<close>, which does
  not fit in \<^verbatim>\<open>uint64_t\<close>, and \<^verbatim>\<open>ustring_parse_dec\<close> returns the wrapped value 0 for it.
\<close>

theorem parse_dec_overflow_counterexample:
  "literal_value 10 dec_digit_to_value (ustr ''18446744073709551616'') = 2 ^ 64
   \<and> ustring_parse_dec dec_digit_to_value
        (state_of (ustr ''18446744073709551616'' @ [0])) 0 = Some 0"
proof -
  have h: "ustring_at (state_of (ustr ''18446744073709551616'' @ [0])) 0
             (ustr ''18446744073709551616'')"
    by (simp add: state_of_def read32_def addr_limit_def ustr_def)
  have "literal_value 10 dec_digit_to_value (ustr ''18446744073709551616'') = 2 ^ 64"
    unfolding literal_value_def positional_horner
    by (simp add: ustr_def dec_digit_to_value_def)
  moreover have "ustring_parse_dec dec_digit_to_value
        (state_of (ustr ''18446744073709551616'' @ [0])) 0 = Some 0"
    using ustring_parse_base_at[OF h, of 10 dec_digit_to_value]
    unfolding positional_horner
    by (simp add: ustring_parse_dec_def ustr_def dec_digit_to_value_def)
  ultimately show ?thesis by simp
qed

lemma unat_positional:
  "unat (\<Sum>i<n. f (ucast (xs ! i)) * (of_nat b :: u64) ^ (n - 1 - i))
     = (\<Sum>i<n. unat (f (ucast ((xs :: u32 list) ! i))) * b ^ (n - 1 - i)) mod 2 ^ 64"
proof -
  have "(\<Sum>i<n. f (ucast (xs ! i)) * (of_nat b :: u64) ^ (n - 1 - i))
      = of_nat (\<Sum>i<n. unat (f (ucast (xs ! i))) * b ^ (n - 1 - i))"
    by simp
  then show ?thesis by (simp only: unat_of_nat) simp
qed

text \<open>
  C3, amended. Numeric-literal parsing reports no overflow: for every literal \<open>xs\<close> at
  \<open>str\<close>, \<^verbatim>\<open>ustring_parse_base\<close> (and so \<^verbatim>\<open>ustring_parse_dec\<close> and \<^verbatim>\<open>ustring_parse_hex\<close>)
  returns a value, the number the literal denotes reduced modulo \<open>2 ^ 64\<close>; a literal that
  does not fit in \<^verbatim>\<open>uint64_t\<close> gives the wrapped value.
\<close>

theorem ustring_parse_base_wraps:
  assumes "ustring_at s str xs"
  shows "(\<exists>w. ustring_parse_base s str (of_nat b) f = Some w
              \<and> unat w = literal_value b f xs mod 2 ^ 64)
       \<and> (\<exists>w. ustring_parse_dec d s str = Some w
              \<and> unat w = literal_value 10 d xs mod 2 ^ 64)
       \<and> (\<exists>w. ustring_parse_hex h s str = Some w
              \<and> unat w = literal_value 16 h xs mod 2 ^ 64)"
proof -
  have "\<exists>w. ustring_parse_base s str (of_nat c) g = Some w
              \<and> unat w = literal_value c g xs mod 2 ^ 64" for c g
    using ustring_parse_base_at[OF assms, of "of_nat c" g] unat_positional[where n="length xs" and f=g and xs=xs and b=c]
    by (simp add: literal_value_def)
  from this[of b f] this[of 10 d] this[of 16 h] show ?thesis
    by (simp add: ustring_parse_dec_def ustring_parse_hex_def)
qed

theorem ustring_parse_base_wraps_witness:
  "literal_value 10 dec_digit_to_value (ustr ''18446744073709551617'') = 2 ^ 64 + 1
   \<and> (\<exists>w. ustring_parse_dec dec_digit_to_value
              (state_of (ustr ''18446744073709551617'' @ [0])) 0 = Some w \<and> unat w = 1)"
proof -
  have h: "ustring_at (state_of (ustr ''18446744073709551617'' @ [0])) 0
             (ustr ''18446744073709551617'')"
    by (simp add: state_of_def read32_def addr_limit_def ustr_def)
  have v: "literal_value 10 dec_digit_to_value (ustr ''18446744073709551617'') = 2 ^ 64 + 1"
    unfolding literal_value_def positional_horner
    by (simp add: ustr_def dec_digit_to_value_def)
  from ustring_parse_base_wraps[OF h, of 10 dec_digit_to_value dec_digit_to_value
      hex_digit_to_value] v
  show ?thesis by simp
qed


section \<open>Reduction records\<close>

lemma ustring_str_frame: "ustring_str p s = Some s' \<Longrightarrow> s' = s\<lparr>stdout := stdout s'\<rparr>"
proof (induction p s rule: ustring_str.induct)
  case (1 p s)
  show ?case
  proof (cases "read32 s p")
    case None
    with "1.prems" show ?thesis by (simp add: ustring_str.simps)
  next
    case (Some c)
    show ?thesis
    proof (cases "c = 0")
      case True
      with Some "1.prems" show ?thesis by (simp add: ustring_str.simps)
    next
      case False
      with Some "1.prems"
      have "ustring_str (p + 1) (s\<lparr>stdout := put_unicode c (stdout s)\<rparr>) = Some s'"
        by (simp add: ustring_str.simps)
      from "1.IH"[OF Some False this] show ?thesis by (cases s; cases s'; simp)
    qed
  qed
qed

lemma reduction_str_at:
  assumes "reds s r = Some v" and "symbols s (head_idx v) = Some head"
    and "ustring_at s (data head) name"
  shows "reduction_str r s =
           Some ((), s\<lparr>stdout := stdout s @ ascii ''R('' @ fold put_unicode name []
                                   @ ascii '', '' @ fmt_u (unat (length_r v)) @ ascii '')''\<rparr>)"
proof -
  let ?s1 = "s\<lparr>stdout := printf (ascii ''R('') (stdout s)\<rparr>"
  have "ustring_at ?s1 (data head) name" using assms(3) by simp
  from ustring_str_at[OF this]
  have "obj_str head ?s1 = Some (?s1\<lparr>stdout := fold put_unicode name (stdout ?s1)\<rparr>)"
    by (simp add: obj_str_def)
  moreover have "fold put_unicode name (stdout ?s1) = stdout s @ ascii ''R('' @ fold put_unicode name []"
    using fold_put_unicode_append[of name "stdout ?s1"] by (simp add: printf_def)
  ultimately show ?thesis
    using assms(1,2)
    by (simp add: reduction_str_def metaparser_get_symbol_def printf_def)
qed

lemma reduction_repr_at:
  assumes "reds s r = Some v"
  shows "reduction_repr r s =
           Some ((), s\<lparr>stdout := stdout s @ ascii ''reduction{head_idx: '' @ fmt_u (unat (head_idx v))
                                   @ ascii '', length: '' @ fmt_u (unat (length_r v)) @ ascii ''}''\<rparr>)"
  using assms by (simp add: reduction_repr_def printf_def)

lemma reduction_strlen_at:
  assumes "reds s r = Some v" and "symbols s (head_idx v) = Some head"
    and "ustring_at s (data head) name"
  shows "reduction_strlen r s =
           Some (word_of_nat (length name)
                 + word_of_nat (length (ascii ''R(, '' @ fmt_u (unat (length_r v)) @ ascii '')'')), s)"
  using assms(1,2) ustring_len_at[OF assms(3)]
  by (simp add: reduction_strlen_def metaparser_get_symbol_def)

text \<open>
  C1. Reduction equality is an equivalence relation and hashing respects it: for all
  reduction records \<open>a\<close>, \<open>b\<close>, \<open>c\<close> (pointers to stored records), \<^verbatim>\<open>reduction_equals\<close> is
  reflexive, symmetric and transitive, and records that are equal have the same
  \<^verbatim>\<open>reduction_hash\<close>.
\<close>

theorem reduction_equals_equivalence:
  assumes "reds s a = Some ra" and "reds s b = Some rb" and "reds s c = Some rc"
  shows "reduction_equals a a s = Some (True, s)
       \<and> (reduction_equals a b s = Some (True, s) \<longrightarrow> reduction_equals b a s = Some (True, s))
       \<and> (reduction_equals a b s = Some (True, s) \<and> reduction_equals b c s = Some (True, s)
            \<longrightarrow> reduction_equals a c s = Some (True, s))
       \<and> (reduction_equals a b s = Some (True, s)
            \<longrightarrow> (\<exists>v. reduction_hash hash_uint_sequence a s = Some (v, s)
                     \<and> reduction_hash hash_uint_sequence b s = Some (v, s)))"
  using assms by (simp add: reduction_equals_def reduction_hash_def)

theorem reduction_equals_equivalence_witness:
  "reduction_equals 0 1 (snd (new_reduction 7 3 (snd (new_reduction 7 3 (demo_state (ustr ''expr''))))))
     = Some (True, snd (new_reduction 7 3 (snd (new_reduction 7 3 (demo_state (ustr ''expr''))))))
   \<and> reduction_equals 1 0 (snd (new_reduction 7 3 (snd (new_reduction 7 3 (demo_state (ustr ''expr''))))))
     = Some (True, snd (new_reduction 7 3 (snd (new_reduction 7 3 (demo_state (ustr ''expr''))))))
   \<and> reduction_hash (\<lambda>seq n. sum_list seq) 0
        (snd (new_reduction 7 3 (snd (new_reduction 7 3 (demo_state (ustr ''expr''))))))
     = reduction_hash (\<lambda>seq n. sum_list seq) 1
        (snd (new_reduction 7 3 (snd (new_reduction 7 3 (demo_state (ustr ''expr''))))))"
proof -
  let ?s = "snd (new_reduction 7 3 (snd (new_reduction 7 3 (demo_state (ustr ''expr'')))))"
  have r: "reds ?s 0 = Some \<lparr>head_idx = 7, length_r = 3\<rparr>"
    "reds ?s 1 = Some \<lparr>head_idx = 7, length_r = 3\<rparr>"
    by (simp_all add: new_reduction_def demo_state_def state_of_def)
  have e: "reduction_equals 0 1 ?s = Some (True, ?s)"
    using r by (simp add: reduction_equals_def)
  from reduction_equals_equivalence[OF r(1) r(2) r(1), of "\<lambda>seq n. sum_list seq"] e
  show ?thesis by auto
qed

text \<open>
  C8. A reduction record is not changed by the operations on it: each of
  \<^verbatim>\<open>reduction_str\<close>, \<^verbatim>\<open>reduction_strlen\<close>, \<^verbatim>\<open>reduction_repr\<close>, \<^verbatim>\<open>reduction_equals\<close> (in either
  argument position) and \<^verbatim>\<open>reduction_hash\<close> leaves the record \<open>r\<close> points to, with its
  \<^verbatim>\<open>head_idx\<close> and \<^verbatim>\<open>length\<close>, as it was.
\<close>

theorem reduction_operations_keep_record:
  assumes "reds s r = Some v"
  shows "(reduction_str r s = Some (u1, s1) \<longrightarrow> reds s1 r = Some v)
       \<and> (reduction_strlen r s = Some (w, s2) \<longrightarrow> reds s2 r = Some v)
       \<and> (reduction_repr r s = Some (u3, s3) \<longrightarrow> reds s3 r = Some v)
       \<and> (reduction_equals r r' s = Some (b4, s4) \<longrightarrow> reds s4 r = Some v)
       \<and> (reduction_equals r' r s = Some (b5, s5) \<longrightarrow> reds s5 r = Some v)
       \<and> (reduction_hash hash_uint_sequence r s = Some (h6, s6) \<longrightarrow> reds s6 r = Some v)"
proof -
  have "reds s1 r = Some v" if "reduction_str r s = Some (u1, s1)"
  proof -
    from that obtain head s' where
      o: "obj_str head (s\<lparr>stdout := printf (ascii ''R('') (stdout s)\<rparr>) = Some s'"
      and e: "reds s1 = reds s'"
      by (auto simp: reduction_str_def Let_def split: option.splits)
    from o have "s' = (s\<lparr>stdout := printf (ascii ''R('') (stdout s)\<rparr>)\<lparr>stdout := stdout s'\<rparr>"
      unfolding obj_str_def by (rule ustring_str_frame)
    then have "reds s' = reds s" by (cases s; cases s'; simp)
    with e assms show ?thesis by simp
  qed
  moreover have "reds s2 r = Some v" if "reduction_strlen r s = Some (w, s2)"
    using that assms by (auto simp: reduction_strlen_def Let_def split: option.splits)
  moreover have "reds s3 r = Some v" if "reduction_repr r s = Some (u3, s3)"
    using that assms by (auto simp: reduction_repr_def split: option.splits)
  moreover have "reds s4 r = Some v" if "reduction_equals r r' s = Some (b4, s4)"
    using that assms by (auto simp: reduction_equals_def split: option.splits)
  moreover have "reds s5 r = Some v" if "reduction_equals r' r s = Some (b5, s5)"
    using that assms by (auto simp: reduction_equals_def split: option.splits)
  moreover have "reds s6 r = Some v" if "reduction_hash hash_uint_sequence r s = Some (h6, s6)"
    using that assms by (auto simp: reduction_hash_def Let_def split: option.splits)
  ultimately show ?thesis by blast
qed

theorem reduction_operations_keep_record_witness:
  "\<exists>s1 w s2 s3 s4 h6 s6.
     reduction_str 0 (snd (new_reduction 7 3 (demo_state (ustr ''expr'')))) = Some ((), s1)
     \<and> reds s1 0 = Some \<lparr>head_idx = 7, length_r = 3\<rparr>
     \<and> reduction_strlen 0 (snd (new_reduction 7 3 (demo_state (ustr ''expr'')))) = Some (w, s2)
     \<and> reds s2 0 = Some \<lparr>head_idx = 7, length_r = 3\<rparr>
     \<and> reduction_repr 0 (snd (new_reduction 7 3 (demo_state (ustr ''expr'')))) = Some ((), s3)
     \<and> reds s3 0 = Some \<lparr>head_idx = 7, length_r = 3\<rparr>
     \<and> reduction_equals 0 0 (snd (new_reduction 7 3 (demo_state (ustr ''expr''))))
         = Some (True, s4)
     \<and> reds s4 0 = Some \<lparr>head_idx = 7, length_r = 3\<rparr>
     \<and> reduction_hash (\<lambda>seq n. sum_list seq) 0
           (snd (new_reduction 7 3 (demo_state (ustr ''expr'')))) = Some (h6, s6)
     \<and> reds s6 0 = Some \<lparr>head_idx = 7, length_r = 3\<rparr>"
proof -
  let ?s = "snd (new_reduction 7 3 (demo_state (ustr ''expr'')))"
  let ?v = "\<lparr>head_idx = 7, length_r = 3\<rparr>"
  have r: "reds ?s 0 = Some ?v"
    by (simp add: new_reduction_def demo_state_def state_of_def)
  have sy: "symbols ?s (head_idx ?v) = Some \<lparr>data = 0\<rparr>"
    by (simp add: new_reduction_def demo_state_def state_of_def)
  have at: "ustring_at ?s (data \<lparr>data = 0\<rparr>) (ustr ''expr'')"
    by (simp add: new_reduction_def demo_state_def state_of_def read32_def addr_limit_def
        ustr_def)
  obtain s1 where s1: "reduction_str 0 ?s = Some ((), s1)"
    using reduction_str_at[OF r sy at] by blast
  obtain w s2 where s2: "reduction_strlen 0 ?s = Some (w, s2)"
    using reduction_strlen_at[OF r sy at] by blast
  obtain s3 where s3: "reduction_repr 0 ?s = Some ((), s3)"
    using reduction_repr_at[OF r] by blast
  have s4: "reduction_equals 0 0 ?s = Some (True, ?s)"
    using r by (simp add: reduction_equals_def)
  obtain h6 s6 where s6: "reduction_hash (\<lambda>seq n. sum_list seq) 0 ?s = Some (h6, s6)"
    using r by (simp add: reduction_hash_def)
  from reduction_operations_keep_record[OF r, where ?u1.0="()" and ?s1.0=s1 and w=w and ?s2.0=s2
      and ?u3.0="()" and ?s3.0=s3 and r'=0 and ?b4.0=True and ?s4.0="?s"
      and ?b5.0=True and ?s5.0="?s"
      and hash_uint_sequence="\<lambda>seq n. sum_list seq" and ?h6.0=h6 and ?s6.0=s6]
    s1 s2 s3 s4 s6
  show ?thesis by blast
qed

text \<open>
  C5. For every \<open>head_idx\<close> and \<open>length\<close>, the record built by \<^verbatim>\<open>new_reduction\<close> is printed
  by \<^verbatim>\<open>reduction_repr\<close> as \<open>reduction{head_idx: <head_idx>, length: <length>}\<close> (decimal) and
  by \<^verbatim>\<open>reduction_str\<close> as \<open>R(<name>, <length>)\<close>, where \<open><name>\<close> is the name of symbol
  \<open>head_idx\<close> in the symbol table as \<^verbatim>\<open>put_unicode\<close> writes its code points; for
  \<^verbatim>\<open>new_reduction(7, 3)\<close> these are \<open>reduction{head_idx: 7, length: 3}\<close> and \<open>R(<name>, 3)\<close>.
\<close>

theorem new_reduction_renderings:
  assumes "new_reduction h l s = (r, s1)"
  shows "reduction_repr r s1 =
           Some ((), s1\<lparr>stdout := stdout s1 @ ascii ''reduction{head_idx: '' @ fmt_u (unat h)
                                     @ ascii '', length: '' @ fmt_u (unat l) @ ascii ''}''\<rparr>)
       \<and> (symbols s h = Some head \<and> ustring_at s (data head) name \<longrightarrow>
            reduction_str r s1 =
              Some ((), s1\<lparr>stdout := stdout s1 @ ascii ''R('' @ fold put_unicode name []
                                        @ ascii '', '' @ fmt_u (unat l) @ ascii '')''\<rparr>))
       \<and> (h = 7 \<and> l = 3 \<longrightarrow>
            reduction_repr r s1 =
              Some ((), s1\<lparr>stdout := stdout s1 @ ascii ''reduction{head_idx: 7, length: 3}''\<rparr>)
            \<and> (symbols s h = Some head \<and> ustring_at s (data head) name \<longrightarrow>
                 reduction_str r s1 =
                   Some ((), s1\<lparr>stdout := stdout s1 @ ascii ''R('' @ fold put_unicode name []
                                             @ ascii '', 3)''\<rparr>)))"
proof -
  have r: "reds s1 r = Some \<lparr>head_idx = h, length_r = l\<rparr>"
    using assms by (auto simp: new_reduction_def)
  have sy: "symbols s1 = symbols s" using assms by (auto simp: new_reduction_def)
  have at: "ustring_at s1 p xs = ustring_at s p xs" for p xs
    using assms by (intro ustring_at_frame) (auto simp: new_reduction_def read32_def)
  have repr: "reduction_repr r s1 =
           Some ((), s1\<lparr>stdout := stdout s1 @ ascii ''reduction{head_idx: '' @ fmt_u (unat h)
                                     @ ascii '', length: '' @ fmt_u (unat l) @ ascii ''}''\<rparr>)"
    using reduction_repr_at[OF r] by simp
  have str: "reduction_str r s1 =
              Some ((), s1\<lparr>stdout := stdout s1 @ ascii ''R('' @ fold put_unicode name []
                                        @ ascii '', '' @ fmt_u (unat l) @ ascii '')''\<rparr>)"
    if "symbols s h = Some head" "ustring_at s (data head) name"
    using reduction_str_at[OF r, of head name] that sy at by simp
  have f: "fmt_u 7 = ascii ''7''" "fmt_u 3 = ascii ''3''"
    by (simp_all add: fmt_u.simps ascii_def)
  show ?thesis using repr str f by (auto simp: ascii_def)
qed

theorem new_reduction_renderings_witness:
  "reduction_repr (fst (new_reduction 7 3 (demo_state (ustr ''expr'')))) (snd (new_reduction 7 3 (demo_state (ustr ''expr'')))) =
     Some ((), (snd (new_reduction 7 3 (demo_state (ustr ''expr''))))
                 \<lparr>stdout := ascii ''reduction{head_idx: 7, length: 3}''\<rparr>)
   \<and> reduction_str (fst (new_reduction 7 3 (demo_state (ustr ''expr'')))) (snd (new_reduction 7 3 (demo_state (ustr ''expr'')))) =
     Some ((), (snd (new_reduction 7 3 (demo_state (ustr ''expr''))))\<lparr>stdout := ascii ''R(expr, 3)''\<rparr>)"
proof -
  have n: "new_reduction 7 3 (demo_state (ustr ''expr''))
      = (fst (new_reduction 7 3 (demo_state (ustr ''expr''))), snd (new_reduction 7 3 (demo_state (ustr ''expr''))))" by simp
  have sy: "symbols (demo_state (ustr ''expr'')) 7 = Some \<lparr>data = 0\<rparr>" by (simp add: demo_state_def)
  have at: "ustring_at (demo_state (ustr ''expr'')) (data \<lparr>data = 0\<rparr>) (ustr ''expr'')"
    by (simp add: demo_state_def state_of_def read32_def addr_limit_def ustr_def)
  have nm: "fold put_unicode (ustr ''expr'') [] = ascii ''expr''"
    by (simp add: ustr_def ascii_def put_unicode_def putchar_def)
  have out: "stdout (snd (new_reduction 7 3 (demo_state (ustr ''expr'')))) = []"
    by (simp add: new_reduction_def demo_state_def state_of_def)
  from new_reduction_renderings[OF n, of "\<lparr>data = 0\<rparr>" "ustr ''expr''"] sy at nm out
  show ?thesis by (simp add: ascii_def fmt_u.simps)
qed

section \<open>The width of a rendering\<close>

lemma u8_ascii:
  fixes b :: u8
  assumes "b < 0x80"
  shows "drop_bit 7 b = 0"
proof -
  have "unat (drop_bit 7 b) = drop_bit 7 (unat b)" by (rule unat_drop_bit_eq)
  also have "\<dots> = unat b div 2 ^ 7" by (rule drop_bit_eq_div)
  also have "\<dots> = 0" using assms by (simp add: word_less_nat_alt)
  finally show ?thesis by (simp add: unat_eq_0)
qed

lemma eat_ascii:
  assumes "b \<noteq> 0" and "b < 0x80"
  shows "eat_utf8 (b # rest) t = Some (ucast b, rest, t)"
  using assms u8_ascii[OF assms(2)] by (simp add: eat_utf8_def)

lemma utf8_length_ascii:
  assumes "\<forall>b\<in>set bs. b \<noteq> 0 \<and> b < 0x80"
  shows "utf8_length_loop (bs @ rest) i t = utf8_length_loop rest (i + length bs) t"
  using assms
proof (induction bs arbitrary: i)
  case Nil
  then show ?case by simp
next
  case (Cons b bs)
  then have b: "b \<noteq> 0" "b < 0x80" by simp_all
  have "(ucast b :: u32) \<noteq> 0"
  proof
    assume "(ucast b :: u32) = 0"
    then have "unat (ucast b :: u32) = 0" by simp
    moreover have "unat b < 2 ^ 32" using b(2) by (simp add: word_less_nat_alt)
    then have "take_bit 32 (unat b) = unat b" by (rule take_bit_nat_eq_self)
    ultimately have "unat b = 0" by (simp add: unsigned_ucast_eq)
    with b(1) show False by (simp add: unat_eq_0)
  qed
  then have "utf8_length_loop ((b # bs) @ rest) i t = utf8_length_loop (bs @ rest) (i + 1) t"
    using eat_ascii[OF b, of "bs @ rest" t] by (subst utf8_length_loop.simps) simp
  also have "\<dots> = utf8_length_loop rest (i + 1 + length bs) t"
    using Cons.prems by (intro Cons.IH) simp
  finally show ?case by simp
qed

lemma utf8_length_name:
  assumes "\<forall>c\<in>set name. c \<noteq> 0 \<and> c < 0x200000"
  shows "utf8_length_loop (fold put_unicode name [] @ rest) i t
           = utf8_length_loop rest (i + length name) t"
  using assms
proof (induction name arbitrary: i)
  case Nil
  then show ?case by simp
next
  case (Cons c cs)
  then have c: "c \<noteq> 0" "c < 0x200000" by simp_all
  have "fold put_unicode (c # cs) [] = put_unicode c [] @ fold put_unicode cs []"
    using fold_put_unicode_append[of cs "put_unicode c []"] by simp
  then have "utf8_length_loop (fold put_unicode (c # cs) [] @ rest) i t
      = utf8_length_loop (put_unicode c [] @ (fold put_unicode cs [] @ rest)) i t" by simp
  also have "\<dots> = utf8_length_loop (fold put_unicode cs [] @ rest) (i + 1) t"
    using eat_put_unicode[OF c(2), of "fold put_unicode cs [] @ rest" t] c(1)
    by (subst utf8_length_loop.simps) simp
  also have "\<dots> = utf8_length_loop rest (i + 1 + length cs) t"
    using Cons.prems by (intro Cons.IH) simp
  finally show ?case by simp
qed

lemma utf8_length_end: "utf8_length_loop [0] i t = Some (i, t)"
  by (subst utf8_length_loop.simps) (simp add: eat_utf8_def)

lemma digit_ascii: "k < 10 \<Longrightarrow> (0x30 + of_nat k :: u8) \<noteq> 0 \<and> (0x30 + of_nat k :: u8) < 0x80"
proof -
  assume "k < 10"
  then have "k \<in> set [0..<10]" by simp
  moreover have "list_all (\<lambda>k. (0x30 + of_nat k :: u8) \<noteq> 0 \<and> (0x30 + of_nat k :: u8) < 0x80)
      [0..<10]"
    by code_simp
  ultimately show ?thesis unfolding list_all_iff by blast
qed

lemma fmt_u_ascii: "\<forall>b\<in>set (fmt_u n). b \<noteq> 0 \<and> b < 0x80"
proof (induction n rule: fmt_u.induct)
  case (1 n)
  show ?case
  proof (cases "n < 10")
    case True
    then show ?thesis using digit_ascii[of n] by (subst fmt_u.simps) simp
  next
    case False
    have "n mod 10 < 10" by simp
    from digit_ascii[OF this] "1.IH"[OF False] False show ?thesis
      by (subst fmt_u.simps) auto
  qed
qed

lemma ustring_at_nonzero: "ustring_at s p xs \<Longrightarrow> \<forall>c\<in>set xs. c \<noteq> 0"
  by (induction xs arbitrary: p) auto

lemma sint_u32_of_nat:
  assumes "n < 2 ^ 31"
  shows "sint (word_of_nat n :: u32) = int n"
proof -
  have n: "int n < 2 ^ 31" using assms by simp
  have "sint (word_of_nat n :: u32) = sint (word_of_int (int n) :: u32)" by simp
  also have "\<dots> = (int n + 2 ^ 31) mod 2 ^ 32 - 2 ^ 31"
    unfolding int_word_sint by simp
  also have "(int n + 2 ^ 31) mod 2 ^ 32 = int n + 2 ^ 31"
    using n by (intro mod_pos_pos_trivial) simp_all
  finally show ?thesis by simp
qed

text \<open>
  C6. For every reduction record \<open>r\<close> whose head symbol has the name \<open>name\<close> (a code-point
  string of 21-bit values, and short enough for the width to fit the \<^verbatim>\<open>int\<close> result),
  \<^verbatim>\<open>reduction_strlen\<close> returns the number of characters of what \<^verbatim>\<open>reduction_str\<close> prints,
  counted by \<^verbatim>\<open>utf8_length\<close> on the printed bytes: the number of code points of the name
  plus the width of \<open>R(, <length>)\<close>.
\<close>

theorem reduction_strlen_width:
  assumes "reds s r = Some v" and "symbols s (head_idx v) = Some head"
    and "ustring_at s (data head) name"
    and "\<forall>c\<in>set name. c < 0x200000"
    and "length name + length (ascii ''R(, '' @ fmt_u (unat (length_r v)) @ ascii '')'') < 2 ^ 31"
  shows "\<exists>w s' out. reduction_strlen r s = Some (w, s)
           \<and> reduction_str r s = Some ((), s') \<and> stdout s' = stdout s @ out
           \<and> utf8_length (out @ [0]) t = Some (nat (sint w), t)
           \<and> sint w = int (length name)
                + int (length (ascii ''R(, '' @ fmt_u (unat (length_r v)) @ ascii '')''))"
proof -
  let ?d = "fmt_u (unat (length_r v))"
  let ?k = "length (ascii ''R(, '' @ ?d @ ascii '')'')"
  let ?w = "word_of_nat (length name) + word_of_nat ?k :: u32"
  let ?out = "ascii ''R('' @ fold put_unicode name [] @ ascii '', '' @ ?d @ ascii '')''"
  have w: "sint ?w = int (length name + ?k)"
    using sint_u32_of_nat[OF assms(5)] by simp
  have nm: "\<forall>c\<in>set name. c \<noteq> 0 \<and> c < 0x200000"
    using ustring_at_nonzero[OF assms(3)] assms(4) by blast
  have a1: "\<forall>b\<in>set (ascii ''R(''). b \<noteq> 0 \<and> b < 0x80" by (simp add: ascii_def)
  have a2: "\<forall>b\<in>set (ascii '', '' @ ?d @ ascii '')''). b \<noteq> 0 \<and> b < 0x80"
    using fmt_u_ascii[of "unat (length_r v)"] by (auto simp: ascii_def)
  have "utf8_length (?out @ [0]) t
      = utf8_length_loop (ascii ''R('' @ (fold put_unicode name []
          @ ((ascii '', '' @ ?d @ ascii '')'') @ [0]))) 0 t"
    by (simp add: utf8_length_def)
  also have "\<dots> = utf8_length_loop (fold put_unicode name []
          @ ((ascii '', '' @ ?d @ ascii '')'') @ [0])) (0 + length (ascii ''R('')) t"
    by (rule utf8_length_ascii[OF a1])
  also have "\<dots> = utf8_length_loop ((ascii '', '' @ ?d @ ascii '')'') @ [0])
          (0 + length (ascii ''R('') + length name) t"
    by (rule utf8_length_name[OF nm])
  also have "\<dots> = utf8_length_loop [0]
          (0 + length (ascii ''R('') + length name + length (ascii '', '' @ ?d @ ascii '')'')) t"
    by (rule utf8_length_ascii[OF a2])
  also have "\<dots> = Some (length name + ?k, t)"
    by (simp add: utf8_length_end ascii_def)
  finally have len: "utf8_length (?out @ [0]) t = Some (nat (sint ?w), t)" using w by simp
  have "reduction_strlen r s = Some (?w, s)" by (rule reduction_strlen_at[OF assms(1-3)])
  moreover have "reduction_str r s = Some ((), s\<lparr>stdout := stdout s @ ?out\<rparr>)"
    by (rule reduction_str_at[OF assms(1-3)])
  ultimately show ?thesis using len w by auto
qed

theorem reduction_strlen_width_witness:
  "\<exists>s'. reduction_strlen 0 (snd (new_reduction 7 12 (demo_state [0x3BB, 0x20AC, 0x61])))
          = Some (10, snd (new_reduction 7 12 (demo_state [0x3BB, 0x20AC, 0x61])))
      \<and> reduction_str 0 (snd (new_reduction 7 12 (demo_state [0x3BB, 0x20AC, 0x61])))
          = Some ((), s')
      \<and> stdout s' = ascii ''R('' @ [0xCE, 0xBB, 0xE2, 0x82, 0xAC, 0x61] @ ascii '', 12)''
      \<and> utf8_length (stdout s' @ [0]) [] = Some (10, [])"
proof -
  let ?s = "snd (new_reduction 7 12 (demo_state [0x3BB, 0x20AC, 0x61]))"
  let ?v = "\<lparr>head_idx = 7, length_r = 12\<rparr>"
  let ?name = "[0x3BB, 0x20AC, 0x61] :: u32 list"
  have r: "reds ?s 0 = Some ?v"
    by (simp add: new_reduction_def demo_state_def state_of_def)
  have sy: "symbols ?s (head_idx ?v) = Some \<lparr>data = 0\<rparr>"
    by (simp add: new_reduction_def demo_state_def state_of_def)
  have at: "ustring_at ?s (data \<lparr>data = 0\<rparr>) ?name"
    by (simp add: new_reduction_def demo_state_def state_of_def read32_def addr_limit_def)
  have v: "\<forall>c\<in>set ?name. c < 0x200000" by simp
  have d: "fmt_u (unat (length_r ?v)) = ascii ''12''" by (simp add: fmt_u.simps ascii_def)
  have b: "length ?name + length (ascii ''R(, '' @ fmt_u (unat (length_r ?v)) @ ascii '')'')
      < 2 ^ 31"
    unfolding d by (simp add: ascii_def)
  have out: "stdout ?s = []" by (simp add: new_reduction_def demo_state_def state_of_def)
  have nm: "fold put_unicode ?name [] = [0xCE, 0xBB, 0xE2, 0x82, 0xAC, 0x61]"
    by (simp add: put_unicode_def putchar_def)
  from reduction_strlen_width[OF r sy at v b, of "[]"]
  obtain w s' out where
    w: "reduction_strlen 0 ?s = Some (w, ?s)" "reduction_str 0 ?s = Some ((), s')"
      "stdout s' = stdout ?s @ out" "utf8_length (out @ [0]) [] = Some (nat (sint w), [])"
    by blast
  have "w = 10" using w(1) reduction_strlen_at[OF r sy at] unfolding d by (simp add: ascii_def)
  moreover have "stdout s' = ascii ''R('' @ [0xCE, 0xBB, 0xE2, 0x82, 0xAC, 0x61] @ ascii '', 12)''"
    using w(2) reduction_str_at[OF r sy at] out nm unfolding d by (auto simp: ascii_def)
  ultimately show ?thesis using w out by auto
qed


end
